theory Spec2Isabelle
  imports Complex_Main "HOL-Library.Word" "HOL-Library.Multiset" "HOL-Library.Product_Lexorder"
begin

section \<open>Generated kernel macros: the (max, rminus) semiring over int64\<close>

text \<open>
  \<^verbatim>\<open>Source/Generated/GB_AxB__max_rminus_int64.c\<close> instantiates the kernel templates by
  defining macros. The scalar type is \<^verbatim>\<open>int64_t\<close>, modelled as a 64-bit word read in
  two's complement; the subtraction of the multiply operator wraps around.
\<close>

type_synonym int64_t = "64 word"

definition INT64_MIN :: int64_t where
  "INT64_MIN = - (2 ^ 63)"

definition INT64_MAX :: int64_t where
  "INT64_MAX = 2 ^ 63 - 1"

text \<open>
  Modelled from the spec: the macro \<^verbatim>\<open>GB_IMAX\<close> is declared in \<^verbatim>\<open>GB.h\<close>, which is not
  among the sources. The header comment of the kernel file (\<^verbatim>\<open>Add: cij = GB_IMAX (cij,z)\<close>)
  and the spec (the additive monoid is max) make it the larger of two signed integers.
\<close>

definition GB_IMAX :: "int64_t \<Rightarrow> int64_t \<Rightarrow> int64_t" where
  "GB_IMAX x y = (if word_sless y x then x else y)"

text \<open>\<^verbatim>\<open>#define GB_MULT(z, x, y) z = y - x ;\<close>: the value assigned to \<open>z\<close>.\<close>

definition GB_MULT :: "int64_t \<Rightarrow> int64_t \<Rightarrow> int64_t" where
  "GB_MULT x y = y - x"

text \<open>\<^verbatim>\<open>#define GB_MULTADD(z, x, y) z = GB_IMAX (z,(y - x)) ;\<close>: the new value of \<open>z\<close>.\<close>

definition GB_MULTADD :: "int64_t \<Rightarrow> int64_t \<Rightarrow> int64_t \<Rightarrow> int64_t" where
  "GB_MULTADD z x y = GB_IMAX z (y - x)"

definition GB_IDENTITY :: int64_t where
  "GB_IDENTITY = INT64_MIN"

text \<open>
  \<^verbatim>\<open>#define GB_DOT_TERMINAL(cij) if (cij == INT64_MAX) break ;\<close>: the value is \<open>True\<close> when
  the \<^verbatim>\<open>break\<close> is taken.
\<close>

definition GB_DOT_TERMINAL :: "int64_t \<Rightarrow> bool" where
  "GB_DOT_TERMINAL cij = (cij = INT64_MAX)"

section \<open>The vector slicer\<close>

text \<open>
  \<^verbatim>\<open>GB_slice_vector.c\<close>. The index arrays \<^verbatim>\<open>Mi\<close>, \<^verbatim>\<open>Ai\<close> and \<^verbatim>\<open>Bi\<close> are pointers in the code
  and functions from positions to row indices here; the code reads them only inside the
  slices. The integers are \<^verbatim>\<open>int64_t\<close> in the code and unbounded here: on the legal inputs
  defined below, where the vector length and the positions are at most \<open>2 ^ 60\<close>, no
  operation of the code leaves the range of \<^verbatim>\<open>int64_t\<close>. Inside the loop \<open>ileft\<close> is never
  negative and \<open>iright\<close> is larger, so the truncating division of C by 2 is \<open>div\<close>.
\<close>

text \<open>
  Modelled from the spec: the macro \<^verbatim>\<open>GB_BINARY_SPLIT_SEARCH (i, X, pleft, pright, found)\<close>
  comes from \<^verbatim>\<open>GB.h\<close>, which is not among the sources. By the spec (section 4.4) it is a
  binary search that finds the first position of \<open>X [pleft .. pright]\<close> whose entry is at
  least \<open>i\<close>, and \<open>pright + 1\<close> when there is none; the position is left in \<open>pleft\<close>. The
  flag \<open>found\<close> is not read by \<^verbatim>\<open>GB_slice_vector\<close> and is left out.
\<close>

function GB_BINARY_SPLIT_SEARCH :: "int \<Rightarrow> (int \<Rightarrow> int) \<Rightarrow> int \<Rightarrow> int \<Rightarrow> int" where
  "GB_BINARY_SPLIT_SEARCH i X pleft pright =
     (if pleft \<le> pright
      then (let pmiddle = (pleft + pright) div 2 in
            if X pmiddle < i then GB_BINARY_SPLIT_SEARCH i X (pmiddle + 1) pright
            else GB_BINARY_SPLIT_SEARCH i X pleft (pmiddle - 1))
      else pleft)"
  by pat_completeness auto
termination
  by (relation "measure (\<lambda>(i, X, pleft, pright). nat (pright - pleft + 1))") auto

text \<open>
  The code finds the position of \<open>i\<close> in a vector three times, for \<open>A\<close>, \<open>B\<close> and \<open>M\<close>,
  with the same three branches: \<open>-1\<close> for an empty vector, \<open>p_start + i\<close> for a dense one
  (\<open>knz = vlen\<close>), and the split search between \<open>p_start\<close> and \<open>p_end - 1\<close> otherwise.
\<close>

definition position_in_vector :: "int \<Rightarrow> int \<Rightarrow> (int \<Rightarrow> int) \<Rightarrow> int \<Rightarrow> int \<Rightarrow> int" where
  "position_in_vector p_start p_end Xi vlen i =
     (let knz = p_end - p_start;
          empty = (knz = 0)
      in if empty then - 1
         else if knz = vlen then p_start + i
         else GB_BINARY_SPLIT_SEARCH i Xi p_start (p_end - 1))"

text \<open>
  The two comparisons of the loop are made on values of type \<^verbatim>\<open>double\<close>. They are
  arguments of the loop, \<open>too_low\<close> and \<open>too_high\<close>, so that what is proved of the loop
  for all of them holds for the comparisons of the code, however they are rounded.
  \<open>work_too_low\<close> and \<open>work_too_high\<close> are the two comparisons in exact arithmetic.
  They are the comparisons of the code where the conversion of the work and the two
  products are exact, as they are for the target 50000; for a target whose products are
  rounded they can differ from the code at the threshold, and nothing is derived from
  them for such a target.
\<close>

definition work_too_low :: "real \<Rightarrow> int \<Rightarrow> bool" where
  "work_too_low target_work work = (real_of_int work < 0.9999 * target_work)"

definition work_too_high :: "real \<Rightarrow> int \<Rightarrow> bool" where
  "work_too_high target_work work = (real_of_int work > 1.0001 * target_work)"

text \<open>
  The \<^verbatim>\<open>while\<close> loop of \<^verbatim>\<open>GB_slice_vector\<close>, on the variables \<open>ileft\<close>, \<open>iright\<close>, \<open>i\<close>, \<open>pA\<close>
  and \<open>pB\<close>. The counter \<open>n\<close> is not in the code: it counts the iterations.
\<close>

function slice_loop ::
  "(int \<Rightarrow> bool) \<Rightarrow> (int \<Rightarrow> bool) \<Rightarrow> int \<Rightarrow> int \<Rightarrow> (int \<Rightarrow> int) \<Rightarrow> int \<Rightarrow> int \<Rightarrow> (int \<Rightarrow> int)
   \<Rightarrow> int \<Rightarrow> nat \<Rightarrow> int \<Rightarrow> int \<Rightarrow> int \<Rightarrow> int \<Rightarrow> int \<Rightarrow> nat \<times> int \<times> int \<times> int" where
  "slice_loop too_low too_high pA_start pA_end Ai pB_start pB_end Bi vlen n ileft iright i pA pB =
     (if ileft < iright
      then (let i = (ileft + iright) div 2;
                a_empty = (pA_end - pA_start = 0);
                b_empty = (pB_end - pB_start = 0);
                pA = position_in_vector pA_start pA_end Ai vlen i;
                pB = position_in_vector pB_start pB_end Bi vlen i;
                work = (if a_empty then 0 else pA_end - pA) + (if b_empty then 0 else pB_end - pB)
            in if too_low work
               then slice_loop too_low too_high pA_start pA_end Ai pB_start pB_end Bi vlen
                      (Suc n) ileft i i pA pB
               else if too_high work
               then slice_loop too_low too_high pA_start pA_end Ai pB_start pB_end Bi vlen
                      (Suc n) (i + 1) iright i pA pB
               else (Suc n, i, pA, pB))
      else (n, i, pA, pB))"
  by pat_completeness auto
termination
  by (relation "measure (\<lambda>(too_low, too_high, pA_start, pA_end, Ai, pB_start, pB_end, Bi, vlen,
        n, ileft, iright, i, pA, pB). nat (iright - ileft))") auto

text \<open>
  \<^verbatim>\<open>GB_slice_vector\<close> for given comparisons: the result is \<open>(i, pM, pA, pB)\<close>, the values
  stored through \<^verbatim>\<open>p_i\<close>, \<^verbatim>\<open>p_pM\<close>, \<^verbatim>\<open>p_pA\<close> and \<^verbatim>\<open>p_pB\<close>. The first value of \<open>pM\<close> is
  never read: \<open>pM\<close> is assigned again after the loop.
\<close>

definition slice_vector ::
  "(int \<Rightarrow> bool) \<Rightarrow> (int \<Rightarrow> bool) \<Rightarrow> int \<Rightarrow> int \<Rightarrow> (int \<Rightarrow> int) \<Rightarrow> int \<Rightarrow> int \<Rightarrow> (int \<Rightarrow> int)
   \<Rightarrow> int \<Rightarrow> int \<Rightarrow> (int \<Rightarrow> int) \<Rightarrow> int \<Rightarrow> int \<times> int \<times> int \<times> int" where
  "slice_vector too_low too_high pM_start pM_end Mi pA_start pA_end Ai pB_start pB_end Bi vlen =
     (let ileft = 0;
          iright = vlen - 1;
          i = 0;
          a_empty = (pA_end - pA_start = 0);
          b_empty = (pB_end - pB_start = 0);
          pA = (if a_empty then - 1 else pA_start);
          pB = (if b_empty then - 1 else pB_start);
          (n, i, pA, pB) = slice_loop too_low too_high pA_start pA_end Ai pB_start pB_end Bi vlen
                             0 ileft iright i pA pB;
          pM = position_in_vector pM_start pM_end Mi vlen i
      in (i, pM, pA, pB))"

definition GB_slice_vector ::
  "int \<Rightarrow> int \<Rightarrow> (int \<Rightarrow> int) \<Rightarrow> int \<Rightarrow> int \<Rightarrow> (int \<Rightarrow> int) \<Rightarrow> int \<Rightarrow> int \<Rightarrow> (int \<Rightarrow> int)
   \<Rightarrow> int \<Rightarrow> real \<Rightarrow> int \<times> int \<times> int \<times> int" where
  "GB_slice_vector pM_start pM_end Mi pA_start pA_end Ai pB_start pB_end Bi vlen target_work =
     slice_vector (work_too_low target_work) (work_too_high target_work)
       pM_start pM_end Mi pA_start pA_end Ai pB_start pB_end Bi vlen"

text \<open>The number of iterations of the loop in a call of \<^verbatim>\<open>GB_slice_vector\<close>.\<close>

definition slice_iterations ::
  "int \<Rightarrow> int \<Rightarrow> (int \<Rightarrow> int) \<Rightarrow> int \<Rightarrow> int \<Rightarrow> (int \<Rightarrow> int) \<Rightarrow> int \<Rightarrow> real \<Rightarrow> nat" where
  "slice_iterations pA_start pA_end Ai pB_start pB_end Bi vlen target_work =
     fst (slice_loop (work_too_low target_work) (work_too_high target_work)
            pA_start pA_end Ai pB_start pB_end Bi vlen 0 0 (vlen - 1) 0
            (if pA_end - pA_start = 0 then - 1 else pA_start)
            (if pB_end - pB_start = 0 then - 1 else pB_start))"

text \<open>
  A legal vector: the slice \<open>Xi [p_start .. p_end - 1]\<close> holds row indices between 0 and
  \<open>vlen - 1\<close> in strictly ascending order. An absent mask is the empty slice.
\<close>

definition legal_vector :: "int \<Rightarrow> int \<Rightarrow> (int \<Rightarrow> int) \<Rightarrow> int \<Rightarrow> bool" where
  "legal_vector p_start p_end Xi vlen \<longleftrightarrow>
     0 \<le> p_start \<and> p_start \<le> p_end \<and> p_end \<le> 2 ^ 60 \<and> 0 \<le> vlen \<and> vlen \<le> 2 ^ 60
     \<and> (\<forall>p. p_start \<le> p \<and> p < p_end \<longrightarrow> 0 \<le> Xi p \<and> Xi p < vlen)
     \<and> (\<forall>p q. p_start \<le> p \<and> p < q \<and> q < p_end \<longrightarrow> Xi p < Xi q)"

text \<open>
  The assertions at the end of \<^verbatim>\<open>GB_slice_vector\<close> for one vector: the position is \<open>-1\<close>
  for an empty vector and only then; otherwise it lies between \<open>p_start\<close> and \<open>p_end\<close>,
  the entry before it is below \<open>i\<close>, and the entry at it is at least \<open>i\<close>.
\<close>

definition boundary_ok :: "int \<Rightarrow> int \<Rightarrow> (int \<Rightarrow> int) \<Rightarrow> int \<Rightarrow> int \<Rightarrow> bool" where
  "boundary_ok p_start p_end Xi i p \<longleftrightarrow>
     (p = - 1 \<longleftrightarrow> p_end - p_start = 0)
     \<and> (p_end - p_start \<noteq> 0 \<longrightarrow>
          p_start \<le> p \<and> p \<le> p_end
          \<and> (p_start < p \<and> p < p_end \<longrightarrow> Xi (p - 1) < i)
          \<and> (p_start \<le> p \<and> p < p_end \<longrightarrow> i \<le> Xi p))"

section \<open>Storage representation and the conform policy\<close>

text \<open>
  \<^verbatim>\<open>GB_conform.c\<close> includes \<^verbatim>\<open>GB.h\<close>, which is not among the sources: the types, the
  constants and the macros it takes from there are modelled from the spec, and so are
  the functions it calls.
\<close>

text \<open>
  Modelled from the spec: the type \<^verbatim>\<open>GrB_Info\<close> of result codes. Its values are the error
  kinds of the spec (section 7); only \<^verbatim>\<open>GrB_SUCCESS\<close> is named in \<^verbatim>\<open>GB_conform.c\<close>. The four
  formats are those of the spec (section 3).
\<close>

datatype GrB_Info =
  GrB_SUCCESS | BadInput | DimensionMismatch | OutOfMemory | InvariantViolation

datatype sparsity_structure = Hypersparse | Sparse | Bitmap | Full

text \<open>
  Modelled from the spec: the matrix, whose declaration is in \<^verbatim>\<open>GB.h\<close>. The fields
  \<open>sparsity\<close>, \<open>bitmap_switch\<close>, \<open>hyper_switch\<close>, \<open>vlen\<close> and \<open>vdim\<close> are the ones
  \<^verbatim>\<open>GB_conform.c\<close> reads. The rest is the data model of the spec (section 3) in an
  abstract form: \<open>structure\<close> is the one of the four formats the matrix is in,
  \<open>entries\<close> are the stored entries \<open>(i, j, x)\<close>, row index first, where a zombie
  carries a negative row index, \<open>pending\<close> are the pending tuples in the order they
  were appended, and \<open>jumbled\<close> is the flag. \<open>reducer\<close> is the operator that reduces
  the duplicates of one cell when the pending tuples are merged (scenario S6 of the
  spec): the value of the cell so far is its first argument, the value of the next
  tuple its second. The switches are floating-point numbers in the code and reals here.
\<close>

record 'v GrB_Matrix =
  sparsity :: int
  bitmap_switch :: real
  hyper_switch :: real
  vlen :: int
  vdim :: int
  "structure" :: sparsity_structure
  entries :: "(int \<times> int \<times> 'v) list"
  pending :: "(int \<times> int \<times> 'v) list"
  jumbled :: bool
  reducer :: "'v \<Rightarrow> 'v \<Rightarrow> 'v"

text \<open>
  Modelled from the spec: the constants of the sparsity control, declared in
  \<^verbatim>\<open>GraphBLAS.h\<close>, are the bit values of the spec (section 3): HYPER = 1, SPARSE = 2,
  BITMAP = 4, FULL = 8, and AUTO all four.
\<close>

definition GxB_HYPERSPARSE :: int where
  "GxB_HYPERSPARSE = 1"

definition GxB_SPARSE :: int where
  "GxB_SPARSE = 2"

definition GxB_BITMAP :: int where
  "GxB_BITMAP = 4"

definition GxB_FULL :: int where
  "GxB_FULL = 8"

definition GxB_AUTO_SPARSITY :: int where
  "GxB_AUTO_SPARSITY = 15"

text \<open>
  Modelled from the spec: the macros of \<^verbatim>\<open>GB.h\<close> that \<^verbatim>\<open>GB_conform\<close> evaluates on the
  matrix. \<^verbatim>\<open>GB_IS_HYPERSPARSE\<close>, \<^verbatim>\<open>GB_IS_SPARSE\<close>, \<^verbatim>\<open>GB_IS_BITMAP\<close> and \<^verbatim>\<open>GB_IS_FULL\<close> tell
  the format; \<^verbatim>\<open>GB_ZOMBIES\<close>, \<^verbatim>\<open>GB_JUMBLED\<close> and \<^verbatim>\<open>GB_PENDING\<close> tell whether there is
  pending work of the three kinds (\<open>nzombies > 0\<close>, \<open>jumbled\<close>, \<open>n_pending > 0\<close>);
  \<^verbatim>\<open>GB_NNZ\<close> is the number of stored entries, and \<^verbatim>\<open>GB_is_dense\<close> is the test
  \<open>nnz = vlen * vdim\<close> of the spec (section 4.3).
\<close>

definition GB_IS_HYPERSPARSE :: "'v GrB_Matrix \<Rightarrow> bool" where
  "GB_IS_HYPERSPARSE A = (structure A = Hypersparse)"

definition GB_IS_SPARSE :: "'v GrB_Matrix \<Rightarrow> bool" where
  "GB_IS_SPARSE A = (structure A = Sparse)"

definition GB_IS_BITMAP :: "'v GrB_Matrix \<Rightarrow> bool" where
  "GB_IS_BITMAP A = (structure A = Bitmap)"

definition GB_IS_FULL :: "'v GrB_Matrix \<Rightarrow> bool" where
  "GB_IS_FULL A = (structure A = Full)"

definition is_zombie :: "int \<times> int \<times> 'v \<Rightarrow> bool" where
  "is_zombie e = (fst e < 0)"

definition nzombies :: "'v GrB_Matrix \<Rightarrow> int" where
  "nzombies A = int (length (filter is_zombie (entries A)))"

definition n_pending :: "'v GrB_Matrix \<Rightarrow> int" where
  "n_pending A = int (length (pending A))"

definition GB_ZOMBIES :: "'v GrB_Matrix \<Rightarrow> bool" where
  "GB_ZOMBIES A = (nzombies A > 0)"

definition GB_JUMBLED :: "'v GrB_Matrix \<Rightarrow> bool" where
  "GB_JUMBLED A = jumbled A"

definition GB_PENDING :: "'v GrB_Matrix \<Rightarrow> bool" where
  "GB_PENDING A = (n_pending A > 0)"

definition GB_NNZ :: "'v GrB_Matrix \<Rightarrow> int" where
  "GB_NNZ A = int (length (entries A))"

definition GB_is_dense :: "'v GrB_Matrix \<Rightarrow> bool" where
  "GB_is_dense A = (GB_NNZ A = vlen A * vdim A)"

text \<open>
  Modelled from the spec: the \<open>nvec\<close> of the two hyper tests (section 4.2), the number of
  vectors that hold a stored entry.
\<close>

definition GB_nvec_nonempty :: "'v GrB_Matrix \<Rightarrow> int" where
  "GB_nvec_nonempty A = int (length (remdups (map (\<lambda>e. fst (snd e)) (entries A))))"

text \<open>
  The live entries of a matrix, as a multiset. \<open>tuples\<close> are the stored entries and the
  pending tuples that are not zombies, in the order they came. A cell holds one value:
  \<open>value_at\<close> reduces the values of the tuples of one cell in that order, which leaves
  the value of the winner among the duplicates of the cell (the last tuple, when the
  reducer returns its second argument). The live entries are one \<open>(i, j, v)\<close> for each
  cell that some tuple names, with \<open>v\<close> the value at the cell. They are defined from
  the tuples alone, not from the merge that the converters perform.
\<close>

definition cell :: "int \<times> int \<times> 'v \<Rightarrow> int \<times> int" where
  "cell e = (fst e, fst (snd e))"

definition tuples :: "'v GrB_Matrix \<Rightarrow> (int \<times> int \<times> 'v) list" where
  "tuples A = filter (\<lambda>e. \<not> is_zombie e) (entries A @ pending A)"

definition value_at ::
  "('v \<Rightarrow> 'v \<Rightarrow> 'v) \<Rightarrow> (int \<times> int \<times> 'v) list \<Rightarrow> int \<times> int \<Rightarrow> 'v option" where
  "value_at dup ts c =
     (case map (\<lambda>e. snd (snd e)) (filter (\<lambda>e. cell e = c) ts) of
        [] \<Rightarrow> None
      | v # vs \<Rightarrow> Some (foldl dup v vs))"

definition live :: "'v GrB_Matrix \<Rightarrow> (int \<times> int \<times> 'v) multiset" where
  "live A =
     mset (List.map_filter
            (\<lambda>c. map_option (\<lambda>v. (fst c, snd c, v)) (value_at (reducer A) (tuples A) c))
            (remdups (map cell (tuples A))))"

text \<open>
  Modelled from the spec: the four density tests are functions of the repository that
  are not among the sources. The spec (section 4.2) gives them as
  \<open>nnz \<ge> bitmap_switch * vlen * vdim\<close> (sparse to bitmap),
  \<open>nnz < bitmap_switch * vlen * vdim\<close> (bitmap to sparse),
  \<open>nvec \<ge> hyper_switch * vdim\<close> (hyper to sparse) and
  \<open>nvec < hyper_switch * vdim\<close> (sparse to hyper).
\<close>

definition GB_convert_sparse_to_bitmap_test :: "real \<Rightarrow> int \<Rightarrow> int \<Rightarrow> int \<Rightarrow> bool" where
  "GB_convert_sparse_to_bitmap_test bswitch anz alen adim =
     (real_of_int anz \<ge> bswitch * real_of_int alen * real_of_int adim)"

definition GB_convert_bitmap_to_sparse_test :: "real \<Rightarrow> int \<Rightarrow> int \<Rightarrow> int \<Rightarrow> bool" where
  "GB_convert_bitmap_to_sparse_test bswitch anz alen adim =
     (real_of_int anz < bswitch * real_of_int alen * real_of_int adim)"

definition GB_convert_hyper_to_sparse_test :: "real \<Rightarrow> int \<Rightarrow> int \<Rightarrow> bool" where
  "GB_convert_hyper_to_sparse_test hswitch nvec adim =
     (real_of_int nvec \<ge> hswitch * real_of_int adim)"

definition GB_convert_sparse_to_hyper_test :: "real \<Rightarrow> int \<Rightarrow> int \<Rightarrow> bool" where
  "GB_convert_sparse_to_hyper_test hswitch nvec adim =
     (real_of_int nvec < hswitch * real_of_int adim)"

text \<open>
  Modelled from the spec: the converters are functions of the repository that are not
  among the sources. By the spec (sections 4.2 and 7) a converter either succeeds, and
  the matrix is in the new format with the same live entries, or fails for lack of
  memory, and the matrix is cleared. Whether the memory a conversion asks for is there
  is not decided by the matrix: it is the argument \<open>mem\<close>, one answer for each
  conversion. By the header comment of \<^verbatim>\<open>GB_conform.c\<close> pending work is finished only
  when the matrix is converted to bitmap or full (\<open>GB_wait\<close>): zombies are deleted, the
  pending tuples are merged into the stored entries one after the other, a tuple of a
  cell that already holds a value being reduced into that value (\<open>insert_tuple\<close>,
  \<open>coalesce\<close>), and the entries are sorted by vector and row.
  \<^verbatim>\<open>GB_phbix_free\<close> (the macro \<^verbatim>\<open>GB_FREE_ALL\<close> of \<^verbatim>\<open>GB_conform.c\<close>) clears the matrix of all
  entries.
\<close>

datatype GB_conversion =
  To_hyper | To_sparse | To_bitmap | Bitmap_to_sparse | Sparse_to_hyper | Hyper_to_sparse

type_synonym GB_memory = "GB_conversion \<Rightarrow> bool"

definition GB_phbix_free :: "'v GrB_Matrix \<Rightarrow> 'v GrB_Matrix" where
  "GB_phbix_free A = A\<lparr>entries := [], pending := [], jumbled := False\<rparr>"

fun insert_tuple ::
  "('v \<Rightarrow> 'v \<Rightarrow> 'v) \<Rightarrow> int \<times> int \<times> 'v \<Rightarrow> (int \<times> int \<times> 'v) list
   \<Rightarrow> (int \<times> int \<times> 'v) list" where
  "insert_tuple dup e [] = [e]"
| "insert_tuple dup e (x # xs) =
     (if cell x = cell e then (fst x, fst (snd x), dup (snd (snd x)) (snd (snd e))) # xs
      else x # insert_tuple dup e xs)"

definition coalesce ::
  "('v \<Rightarrow> 'v \<Rightarrow> 'v) \<Rightarrow> (int \<times> int \<times> 'v) list \<Rightarrow> (int \<times> int \<times> 'v) list" where
  "coalesce dup ts = foldl (\<lambda>acc e. insert_tuple dup e acc) [] ts"

definition GB_wait :: "'v GrB_Matrix \<Rightarrow> 'v GrB_Matrix" where
  "GB_wait A =
     A\<lparr>entries := sort_key (\<lambda>e. (fst (snd e), fst e)) (coalesce (reducer A) (tuples A)),
       pending := [], jumbled := False\<rparr>"

definition GB_convert_any_to_hyper ::
  "GB_memory \<Rightarrow> 'v GrB_Matrix \<Rightarrow> GrB_Info \<times> 'v GrB_Matrix" where
  "GB_convert_any_to_hyper mem A =
     (if mem To_hyper then (GrB_SUCCESS, A\<lparr>structure := Hypersparse\<rparr>)
      else (OutOfMemory, GB_phbix_free A))"

definition GB_convert_any_to_sparse ::
  "GB_memory \<Rightarrow> 'v GrB_Matrix \<Rightarrow> GrB_Info \<times> 'v GrB_Matrix" where
  "GB_convert_any_to_sparse mem A =
     (if mem To_sparse then (GrB_SUCCESS, A\<lparr>structure := Sparse\<rparr>)
      else (OutOfMemory, GB_phbix_free A))"

definition GB_convert_any_to_bitmap ::
  "GB_memory \<Rightarrow> 'v GrB_Matrix \<Rightarrow> GrB_Info \<times> 'v GrB_Matrix" where
  "GB_convert_any_to_bitmap mem A =
     (if mem To_bitmap then (GrB_SUCCESS, (GB_wait A)\<lparr>structure := Bitmap\<rparr>)
      else (OutOfMemory, GB_phbix_free A))"

text \<open>\<^verbatim>\<open>GB_convert_any_to_full\<close> returns \<^verbatim>\<open>void\<close>: it cannot fail.\<close>

definition GB_convert_any_to_full :: "'v GrB_Matrix \<Rightarrow> 'v GrB_Matrix" where
  "GB_convert_any_to_full A = (GB_wait A)\<lparr>structure := Full\<rparr>"

definition GB_convert_bitmap_to_sparse ::
  "GB_memory \<Rightarrow> 'v GrB_Matrix \<Rightarrow> GrB_Info \<times> 'v GrB_Matrix" where
  "GB_convert_bitmap_to_sparse mem A =
     (if mem Bitmap_to_sparse then (GrB_SUCCESS, A\<lparr>structure := Sparse\<rparr>)
      else (OutOfMemory, GB_phbix_free A))"

text \<open>
  Modelled from the spec: \<^verbatim>\<open>GB_conform_hyper\<close> is not among the sources. By the spec
  (section 4.2) it applies only the two hyper tests: a hypersparse matrix that passes
  the hyper-to-sparse test becomes sparse, a sparse matrix that passes the
  sparse-to-hyper test becomes hypersparse, and any other matrix is left as it is.
\<close>

definition GB_conform_hyper ::
  "GB_memory \<Rightarrow> 'v GrB_Matrix \<Rightarrow> GrB_Info \<times> 'v GrB_Matrix" where
  "GB_conform_hyper mem A =
     (if structure A = Hypersparse
         \<and> GB_convert_hyper_to_sparse_test (hyper_switch A) (GB_nvec_nonempty A) (vdim A)
      then (if mem Hyper_to_sparse then (GrB_SUCCESS, A\<lparr>structure := Sparse\<rparr>)
            else (OutOfMemory, GB_phbix_free A))
      else if structure A = Sparse
         \<and> GB_convert_sparse_to_hyper_test (hyper_switch A) (GB_nvec_nonempty A) (vdim A)
      then (if mem Sparse_to_hyper then (GrB_SUCCESS, A\<lparr>structure := Hypersparse\<rparr>)
            else (OutOfMemory, GB_phbix_free A))
      else (GrB_SUCCESS, A))"

text \<open>
  Modelled from the spec: the macro \<^verbatim>\<open>GB_OK (method)\<close> of \<^verbatim>\<open>GB.h\<close>. By the spec
  (section 7) the first failure is returned and the matrix is reset: when the method
  does not return \<^verbatim>\<open>GrB_SUCCESS\<close>, \<^verbatim>\<open>GB_FREE_ALL\<close> is run and the enclosing function
  returns the code of the method; otherwise the function goes on with \<open>rest\<close>.
\<close>

definition GB_OK ::
  "GrB_Info \<times> 'v GrB_Matrix \<Rightarrow> ('v GrB_Matrix \<Rightarrow> GrB_Info \<times> 'v GrB_Matrix)
   \<Rightarrow> GrB_Info \<times> 'v GrB_Matrix" where
  "GB_OK method rest =
     (if fst method \<noteq> GrB_SUCCESS then (fst method, GB_phbix_free (snd method))
      else rest (snd method))"

text \<open>The three static functions of \<^verbatim>\<open>GB_conform.c\<close>, and \<^verbatim>\<open>GB_conform\<close> itself.\<close>

definition GB_hyper_or_bitmap ::
  "GB_memory \<Rightarrow> bool \<Rightarrow> bool \<Rightarrow> bool \<Rightarrow> bool \<Rightarrow> 'v GrB_Matrix \<Rightarrow> GrB_Info \<times> 'v GrB_Matrix" where
  "GB_hyper_or_bitmap mem is_hyper is_sparse is_bitmap is_full A =
     (if is_full \<or> ((is_hyper \<or> is_sparse) \<and>
          GB_convert_sparse_to_bitmap_test (bitmap_switch A) (GB_NNZ A) (vlen A) (vdim A))
      then GB_OK (GB_convert_any_to_bitmap mem A) (\<lambda>A. (GrB_SUCCESS, A))
      else if is_sparse \<or> (is_bitmap \<and>
          GB_convert_bitmap_to_sparse_test (bitmap_switch A) (GB_NNZ A) (vlen A) (vdim A))
      then GB_OK (GB_convert_any_to_hyper mem A) (\<lambda>A. (GrB_SUCCESS, A))
      else (GrB_SUCCESS, A))"

definition GB_sparse_or_bitmap ::
  "GB_memory \<Rightarrow> bool \<Rightarrow> bool \<Rightarrow> bool \<Rightarrow> bool \<Rightarrow> 'v GrB_Matrix \<Rightarrow> GrB_Info \<times> 'v GrB_Matrix" where
  "GB_sparse_or_bitmap mem is_hyper is_sparse is_bitmap is_full A =
     (if is_full \<or> ((is_hyper \<or> is_sparse) \<and>
          GB_convert_sparse_to_bitmap_test (bitmap_switch A) (GB_NNZ A) (vlen A) (vdim A))
      then GB_OK (GB_convert_any_to_bitmap mem A) (\<lambda>A. (GrB_SUCCESS, A))
      else if is_hyper \<or> (is_bitmap \<and>
          GB_convert_bitmap_to_sparse_test (bitmap_switch A) (GB_NNZ A) (vlen A) (vdim A))
      then GB_OK (GB_convert_any_to_sparse mem A) (\<lambda>A. (GrB_SUCCESS, A))
      else (GrB_SUCCESS, A))"

definition GB_hyper_sparse_or_bitmap ::
  "GB_memory \<Rightarrow> bool \<Rightarrow> bool \<Rightarrow> bool \<Rightarrow> bool \<Rightarrow> 'v GrB_Matrix \<Rightarrow> GrB_Info \<times> 'v GrB_Matrix" where
  "GB_hyper_sparse_or_bitmap mem is_hyper is_sparse is_bitmap is_full A =
     (if is_full \<or> ((is_hyper \<or> is_sparse) \<and>
          GB_convert_sparse_to_bitmap_test (bitmap_switch A) (GB_NNZ A) (vlen A) (vdim A))
      then GB_OK (GB_convert_any_to_bitmap mem A) (\<lambda>A. (GrB_SUCCESS, A))
      else if is_bitmap
      then (if GB_convert_bitmap_to_sparse_test (bitmap_switch A) (GB_NNZ A) (vlen A) (vdim A)
            then GB_OK (GB_convert_bitmap_to_sparse mem A) (\<lambda>A.
                 GB_OK (GB_conform_hyper mem A) (\<lambda>A. (GrB_SUCCESS, A)))
            else (GrB_SUCCESS, A))
      else GB_OK (GB_conform_hyper mem A) (\<lambda>A. (GrB_SUCCESS, A)))"

definition is_full_or_dense_with_no_pending_work :: "'v GrB_Matrix \<Rightarrow> bool" where
  "is_full_or_dense_with_no_pending_work A =
     (GB_IS_FULL A \<or> (GB_is_dense A \<and> \<not> GB_ZOMBIES A \<and> \<not> GB_JUMBLED A \<and> \<not> GB_PENDING A))"

definition GB_conform :: "GB_memory \<Rightarrow> 'v GrB_Matrix \<Rightarrow> GrB_Info \<times> 'v GrB_Matrix" where
  "GB_conform mem A =
     (let is_hyper = GB_IS_HYPERSPARSE A;
          is_sparse = GB_IS_SPARSE A;
          is_full = GB_IS_FULL A;
          is_bitmap = GB_IS_BITMAP A;
          dense = is_full_or_dense_with_no_pending_work A;
          s = sparsity A
      in
      if s = GxB_HYPERSPARSE
      then GB_OK (GB_convert_any_to_hyper mem A) (\<lambda>A. (GrB_SUCCESS, A))
      else if s = GxB_SPARSE
      then GB_OK (GB_convert_any_to_sparse mem A) (\<lambda>A. (GrB_SUCCESS, A))
      else if s = GxB_HYPERSPARSE + GxB_SPARSE
      then (if is_full \<or> is_bitmap
            then GB_OK (GB_convert_any_to_sparse mem A) (\<lambda>A.
                 GB_OK (GB_conform_hyper mem A) (\<lambda>A. (GrB_SUCCESS, A)))
            else GB_OK (GB_conform_hyper mem A) (\<lambda>A. (GrB_SUCCESS, A)))
      else if s = GxB_BITMAP
      then GB_OK (GB_convert_any_to_bitmap mem A) (\<lambda>A. (GrB_SUCCESS, A))
      else if s = GxB_HYPERSPARSE + GxB_BITMAP
      then GB_OK (GB_hyper_or_bitmap mem is_hyper is_sparse is_bitmap is_full A)
             (\<lambda>A. (GrB_SUCCESS, A))
      else if s = GxB_SPARSE + GxB_BITMAP
      then GB_OK (GB_sparse_or_bitmap mem is_hyper is_sparse is_bitmap is_full A)
             (\<lambda>A. (GrB_SUCCESS, A))
      else if s = GxB_HYPERSPARSE + GxB_SPARSE + GxB_BITMAP
      then GB_OK (GB_hyper_sparse_or_bitmap mem is_hyper is_sparse is_bitmap is_full A)
             (\<lambda>A. (GrB_SUCCESS, A))
      else if s = GxB_FULL \<or> s = GxB_FULL + GxB_BITMAP
      then (if dense then (GrB_SUCCESS, GB_convert_any_to_full A)
            else GB_OK (GB_convert_any_to_bitmap mem A) (\<lambda>A. (GrB_SUCCESS, A)))
      else if s = GxB_HYPERSPARSE + GxB_FULL
      then (if dense then (GrB_SUCCESS, GB_convert_any_to_full A)
            else GB_OK (GB_convert_any_to_hyper mem A) (\<lambda>A. (GrB_SUCCESS, A)))
      else if s = GxB_SPARSE + GxB_FULL
      then (if dense then (GrB_SUCCESS, GB_convert_any_to_full A)
            else GB_OK (GB_convert_any_to_sparse mem A) (\<lambda>A. (GrB_SUCCESS, A)))
      else if s = GxB_HYPERSPARSE + GxB_SPARSE + GxB_FULL
      then (if dense then (GrB_SUCCESS, GB_convert_any_to_full A)
            else if is_bitmap
            then GB_OK (GB_convert_bitmap_to_sparse mem A) (\<lambda>A.
                 GB_OK (GB_conform_hyper mem A) (\<lambda>A. (GrB_SUCCESS, A)))
            else GB_OK (GB_conform_hyper mem A) (\<lambda>A. (GrB_SUCCESS, A)))
      else if s = GxB_HYPERSPARSE + GxB_BITMAP + GxB_FULL
      then (if dense then (GrB_SUCCESS, GB_convert_any_to_full A)
            else GB_OK (GB_hyper_or_bitmap mem is_hyper is_sparse is_bitmap is_full A)
                   (\<lambda>A. (GrB_SUCCESS, A)))
      else if s = GxB_SPARSE + GxB_BITMAP + GxB_FULL
      then (if dense then (GrB_SUCCESS, GB_convert_any_to_full A)
            else GB_OK (GB_sparse_or_bitmap mem is_hyper is_sparse is_bitmap is_full A)
                   (\<lambda>A. (GrB_SUCCESS, A)))
      else (if dense then (GrB_SUCCESS, GB_convert_any_to_full A)
            else GB_OK (GB_hyper_sparse_or_bitmap mem is_hyper is_sparse is_bitmap is_full A)
                   (\<lambda>A. (GrB_SUCCESS, A))))"

text \<open>
  The policy as a set of formats: a format lies in the sparsity control \<open>P\<close> when its
  bit is set in \<open>P\<close>.
\<close>

fun structure_bit :: "sparsity_structure \<Rightarrow> int" where
  "structure_bit Hypersparse = GxB_HYPERSPARSE"
| "structure_bit Sparse = GxB_SPARSE"
| "structure_bit Bitmap = GxB_BITMAP"
| "structure_bit Full = GxB_FULL"

definition lies_in :: "sparsity_structure \<Rightarrow> int \<Rightarrow> bool" where
  "lies_in f P = ((P div structure_bit f) mod 2 = 1)"

section \<open>The MATLAB interface: format strings and the burble\<close>

subsection \<open>\<^verbatim>\<open>gb_mxstring_to_format\<close>\<close>

datatype GxB_Format_Value = GxB_BY_ROW | GxB_BY_COL

definition LEN :: nat where
  "LEN = 256"

text \<open>
  Modelled from the spec: \<^verbatim>\<open>gb_mxstring_to_string\<close>, \<^verbatim>\<open>MATCH\<close> and \<^verbatim>\<open>ERROR\<close> come from
  \<^verbatim>\<open>gb_matlab.h\<close>, which is not among the sources. The argument is a MATLAB string, given
  here by its characters; the copy into the buffer \<^verbatim>\<open>format_string\<close> keeps at most
  \<^verbatim>\<open>LEN\<close> of them. \<^verbatim>\<open>MATCH\<close> compares two strings for equality, and \<^verbatim>\<open>ERROR\<close> leaves
  the function with the message, so that no value is returned: the result is \<open>Inl\<close> of
  the message.
\<close>

definition gb_mxstring_to_string :: "nat \<Rightarrow> string \<Rightarrow> string" where
  "gb_mxstring_to_string maxlen S = take maxlen S"

definition MATCH :: "string \<Rightarrow> string \<Rightarrow> bool" where
  "MATCH s t = (s = t)"

definition gb_mxstring_to_format :: "string \<Rightarrow> string + GxB_Format_Value" where
  "gb_mxstring_to_format mxformat =
     (let format_string = gb_mxstring_to_string LEN mxformat in
      if MATCH format_string ''by row'' then Inr GxB_BY_ROW
      else if MATCH format_string ''by col'' then Inr GxB_BY_COL
      else Inl ''unknown format'')"

subsection \<open>\<^verbatim>\<open>gbburble\<close>\<close>

text \<open>
  Modelled from the spec: the MATLAB array type and its accessors, the error macros
  \<^verbatim>\<open>gb_usage\<close>, \<^verbatim>\<open>CHECK_ERROR\<close> and \<^verbatim>\<open>OK\<close>, and the global option \<^verbatim>\<open>GxB_BURBLE\<close> live in
  headers and library code that are not among the sources. An array is numeric with a list
  of elements, or of some other class; a scalar is a numeric array of one element; the
  conversion of a double to \<^verbatim>\<open>bool\<close> is the test against zero. The burble is a
  process-wide boolean that \<^verbatim>\<open>GxB_Global_Option_set\<close> writes and \<^verbatim>\<open>GxB_Global_Option_get\<close>
  reads (spec, section 6). The macro \<^verbatim>\<open>GB_WRAPUP\<close> at the end of the function does not
  touch the burble and is left out.
\<close>

datatype mxArray = mxNumeric "real list" | mxOther

fun gb_mxarray_is_scalar :: "mxArray \<Rightarrow> bool" where
  "gb_mxarray_is_scalar (mxNumeric xs) = (length xs = 1)"
| "gb_mxarray_is_scalar mxOther = False"

fun mxGetScalar :: "mxArray \<Rightarrow> real" where
  "mxGetScalar (mxNumeric xs) = (case xs of [] \<Rightarrow> 0 | x # _ \<Rightarrow> x)"
| "mxGetScalar mxOther = 0"

definition mxCreateDoubleScalar :: "bool \<Rightarrow> real" where
  "mxCreateDoubleScalar b = (if b then 1 else 0)"

record global_state =
  burble :: bool

definition GxB_Global_Option_set_BURBLE :: "bool \<Rightarrow> global_state \<Rightarrow> GrB_Info \<times> global_state" where
  "GxB_Global_Option_set_BURBLE b g = (GrB_SUCCESS, g\<lparr>burble := b\<rparr>)"

definition GxB_Global_Option_get_BURBLE :: "global_state \<Rightarrow> GrB_Info \<times> bool" where
  "GxB_Global_Option_get_BURBLE g = (GrB_SUCCESS, burble g)"

text \<open>
  \<^verbatim>\<open>mexFunction\<close> of \<^verbatim>\<open>gbburble.c\<close>. \<^verbatim>\<open>nargin\<close> is the length of \<^verbatim>\<open>pargin\<close>. The result is the
  error message or the value stored in \<^verbatim>\<open>pargout [0]\<close>, together with the global state
  the call leaves behind.
\<close>

definition mexFunction ::
  "global_state \<Rightarrow> int \<Rightarrow> mxArray list \<Rightarrow> (string + real) \<times> global_state" where
  "mexFunction g nargout pargin =
     (let nargin = int (length pargin) in
      if \<not> (nargin \<le> 1 \<and> nargout \<le> 1)
      then (Inl ''usage: b = GrB.burble ; or GrB.burble (b)'', g)
      else
        (case (if nargin > 0
               then (if \<not> gb_mxarray_is_scalar (hd pargin)
                     then Inl ''input must be a scalar''
                     else (let b = (mxGetScalar (hd pargin) \<noteq> 0);
                               (info, g1) = GxB_Global_Option_set_BURBLE b g
                           in if info = GrB_SUCCESS then Inr g1 else Inl ''GrB error''))
               else Inr g) of
           Inl msg \<Rightarrow> (Inl msg, g)
         | Inr g1 \<Rightarrow>
             (let (info, b) = GxB_Global_Option_get_BURBLE g1
              in if info = GrB_SUCCESS then (Inr (mxCreateDoubleScalar b), g1)
                 else (Inl ''GrB error'', g1))))"

section \<open>Examples\<close>

text \<open>
  A sparse 4 by 4 matrix with three stored entries, one of them a zombie, and three
  pending tuples, two of them for the same cell; among duplicates the last one wins.
  Its policy is given by the argument. The switches are 0.04 and 0.0625.
\<close>

definition small_matrix :: "int \<Rightarrow> sparsity_structure \<Rightarrow> int GrB_Matrix" where
  "small_matrix P f =
     \<lparr>sparsity = P, bitmap_switch = 1 / 25, hyper_switch = 1 / 16, vlen = 4, vdim = 4,
      structure = f, entries = [(0, 0, 7), (- 3, 1, 8), (3, 2, 9)],
      pending = [(1, 3, 5), (2, 2, 4), (1, 3, 6)], jumbled = False,
      reducer = (\<lambda>x y. y)\<rparr>"

text \<open>
  A 4 by 4 matrix with two entries and no pending work, as a bitmap or full matrix has
  none; the bitmap switch is 0.5.
\<close>

definition clean_matrix :: "int \<Rightarrow> sparsity_structure \<Rightarrow> int GrB_Matrix" where
  "clean_matrix P f =
     \<lparr>sparsity = P, bitmap_switch = 1 / 2, hyper_switch = 1 / 16, vlen = 4, vdim = 4,
      structure = f, entries = [(0, 0, 7), (3, 2, 9)], pending = [], jumbled = False,
      reducer = (\<lambda>x y. y)\<rparr>"

text \<open>
  The 10 by 10 matrix of scenario S3 of the spec: every cell is set, there is no pending
  work, and the policy is AUTO.
\<close>

definition dense_matrix :: "int GrB_Matrix" where
  "dense_matrix =
     \<lparr>sparsity = GxB_AUTO_SPARSITY, bitmap_switch = 1 / 25, hyper_switch = 1 / 16,
      vlen = 10, vdim = 10, structure = Sparse,
      entries = map (\<lambda>ji. (snd ji, fst ji, 1)) (List.product [0..9] [0..9]),
      pending = [], jumbled = False, reducer = (\<lambda>x y. y)\<rparr>"

definition all_memory :: GB_memory where
  "all_memory c = True"

definition no_memory :: GB_memory where
  "no_memory c = False"

section \<open>Properties of the kernel macros\<close>

lemma sint_INT64_MIN: "sint INT64_MIN = - (2 ^ 63)"
  by (simp add: INT64_MIN_def)

lemma sint_INT64_MAX: "sint INT64_MAX = 2 ^ 63 - 1"
  by (simp add: INT64_MAX_def)

lemma sint_int64_bounds: "- (2 ^ 63) \<le> sint (v :: int64_t) \<and> sint v \<le> 2 ^ 63 - 1"
  using sint_ge [of v] sint_lt [of v] by simp

lemma sint_GB_IMAX: "sint (GB_IMAX x y) = max (sint x) (sint y)"
  by (simp add: GB_IMAX_def word_sless_alt max_def)

lemma GB_IMAX_identity: "GB_IMAX INT64_MIN v = v \<and> GB_IMAX v INT64_MIN = v"
proof -
  have "sint (GB_IMAX INT64_MIN v) = sint v" "sint (GB_IMAX v INT64_MIN) = sint v"
    using sint_int64_bounds [of v] by (simp_all add: sint_GB_IMAX sint_INT64_MIN max_def)
  then show ?thesis
    by (simp add: signed_word_eqI)
qed

lemma GB_IMAX_terminal: "GB_IMAX INT64_MAX v = INT64_MAX"
proof -
  have "sint (GB_IMAX INT64_MAX v) = sint INT64_MAX"
    using sint_int64_bounds [of v] by (simp add: sint_GB_IMAX sint_INT64_MAX max_def)
  then show ?thesis
    by (simp add: signed_word_eqI)
qed

text \<open>
  Claim C7. In the max_rminus_int64 kernels the multiply is \<open>z = y - x\<close>, the identity is
  \<open>INT64_MIN\<close> and is neutral for the addition, the multiply-add is the maximum of \<open>z\<close> and
  \<open>y - x\<close> as signed integers, and the dot product leaves its reduction exactly when
  \<open>cij\<close> is \<open>INT64_MAX\<close>, the largest int64 value, after which no multiply-add changes
  \<open>cij\<close> any more.
\<close>

theorem max_rminus_int64_kernel:
  "GB_MULT x y = y - x
   \<and> sint GB_IDENTITY = - (2 ^ 63)
   \<and> GB_IMAX GB_IDENTITY v = v \<and> GB_IMAX v GB_IDENTITY = v
   \<and> GB_MULTADD z x y = GB_IMAX z (GB_MULT x y)
   \<and> sint (GB_MULTADD z x y) = max (sint z) (sint (y - x))
   \<and> (GB_DOT_TERMINAL cij \<longleftrightarrow> sint cij = 2 ^ 63 - 1)
   \<and> sint v \<le> sint INT64_MAX
   \<and> (GB_DOT_TERMINAL cij \<longrightarrow> GB_MULTADD cij x y = cij)"
proof -
  have t: "GB_DOT_TERMINAL cij \<longleftrightarrow> sint cij = 2 ^ 63 - 1"
  proof
    assume "GB_DOT_TERMINAL cij"
    then show "sint cij = 2 ^ 63 - 1"
      by (simp add: GB_DOT_TERMINAL_def sint_INT64_MAX)
  next
    assume "sint cij = 2 ^ 63 - 1"
    then have "sint cij = sint INT64_MAX"
      by (simp add: sint_INT64_MAX)
    then show "GB_DOT_TERMINAL cij"
      by (simp add: GB_DOT_TERMINAL_def signed_word_eqI)
  qed
  have a: "GB_DOT_TERMINAL cij \<longrightarrow> GB_MULTADD cij x y = cij"
    by (simp add: GB_DOT_TERMINAL_def GB_MULTADD_def GB_IMAX_terminal)
  have b: "sint v \<le> sint INT64_MAX"
    using sint_int64_bounds [of v] by (simp add: sint_INT64_MAX)
  show ?thesis
    using t a b GB_IMAX_identity [of v]
    by (simp add: GB_MULT_def GB_IDENTITY_def sint_INT64_MIN GB_MULTADD_def sint_GB_IMAX)
qed

text \<open>
  With \<open>aik = 0\<close> and \<open>bkj = INT64_MAX\<close> the accumulator reaches the terminal value
  from the identity; there the break is taken, and a later product leaves it as it is.
\<close>

theorem max_rminus_int64_kernel_witness:
  "GB_DOT_TERMINAL INT64_MAX \<and> GB_MULTADD INT64_MAX 3 7 = INT64_MAX
   \<and> GB_MULTADD GB_IDENTITY 0 INT64_MAX = INT64_MAX"
proof -
  have d: "GB_DOT_TERMINAL INT64_MAX"
    by (simp add: GB_DOT_TERMINAL_def)
  note k = max_rminus_int64_kernel [where x = 3 and y = 7 and v = INT64_MAX and z = 0 and cij = INT64_MAX]
  note l = max_rminus_int64_kernel [where x = 0 and y = INT64_MAX and v = INT64_MAX and z = GB_IDENTITY and cij = 0]
  have a: "GB_MULTADD INT64_MAX 3 7 = INT64_MAX"
    using d k by blast
  have "GB_MULTADD GB_IDENTITY 0 INT64_MAX = GB_IMAX GB_IDENTITY (GB_MULT 0 INT64_MAX)"
    using l by blast
  moreover have "GB_MULT 0 INT64_MAX = INT64_MAX"
    by (simp add: GB_MULT_def)
  moreover have "GB_IMAX GB_IDENTITY INT64_MAX = INT64_MAX"
    using l by blast
  ultimately have b: "GB_MULTADD GB_IDENTITY 0 INT64_MAX = INT64_MAX"
    by simp
  show ?thesis
    using d a b by blast
qed

section \<open>Properties of the MATLAB interface\<close>

lemma take_LEN_eq_short:
  assumes "length t < n"
  shows "take n s = t \<longleftrightarrow> s = t"
proof
  assume h: "take n s = t"
  then have "length (take n s) < n"
    using assms by simp
  then have "length s < n"
    by (simp add: min_def split: if_splits)
  then show "s = t"
    using h by simp
next
  assume "s = t"
  then show "take n s = t"
    using assms by simp
qed

text \<open>
  Claim C8. \<^verbatim>\<open>gb_mxstring_to_format\<close> returns \<open>GxB_BY_ROW\<close> exactly for the string
  \<open>by row\<close>, \<open>GxB_BY_COL\<close> exactly for \<open>by col\<close>, and raises the error \<open>unknown format\<close>,
  returning no format, for every other string.
\<close>

theorem gb_mxstring_to_format_cases:
  "(gb_mxstring_to_format s = Inr GxB_BY_ROW \<longleftrightarrow> s = ''by row'')
   \<and> (gb_mxstring_to_format s = Inr GxB_BY_COL \<longleftrightarrow> s = ''by col'')
   \<and> (gb_mxstring_to_format s = Inl ''unknown format'' \<longleftrightarrow> s \<noteq> ''by row'' \<and> s \<noteq> ''by col'')
   \<and> (\<forall>msg. gb_mxstring_to_format s = Inl msg \<longrightarrow> msg = ''unknown format'')"
proof -
  have r: "take LEN s = ''by row'' \<longleftrightarrow> s = ''by row''"
    by (rule take_LEN_eq_short) (simp add: LEN_def)
  have c: "take LEN s = ''by col'' \<longleftrightarrow> s = ''by col''"
    by (rule take_LEN_eq_short) (simp add: LEN_def)
  show ?thesis
    using r c by (auto simp: gb_mxstring_to_format_def gb_mxstring_to_string_def MATCH_def Let_def)
qed

theorem gb_mxstring_to_format_cases_witness:
  "gb_mxstring_to_format ''by row'' = Inr GxB_BY_ROW
   \<and> gb_mxstring_to_format ''by col'' = Inr GxB_BY_COL
   \<and> gb_mxstring_to_format ''by column'' = Inl ''unknown format''"
proof -
  have a: "gb_mxstring_to_format ''by row'' = Inr GxB_BY_ROW"
    using gb_mxstring_to_format_cases [of "''by row''"] by blast
  have b: "gb_mxstring_to_format ''by col'' = Inr GxB_BY_COL"
    using gb_mxstring_to_format_cases [of "''by col''"] by blast
  have n: "''by column'' \<noteq> ''by row''" "''by column'' \<noteq> ''by col''"
    by simp_all
  have c: "gb_mxstring_to_format ''by column'' = Inl ''unknown format''"
    using gb_mxstring_to_format_cases [of "''by column''"] n by blast
  show ?thesis
    using a b c by blast
qed

text \<open>
  Claim C9. With no input \<^verbatim>\<open>gbburble\<close> returns the burble and leaves it as it is; with
  one scalar input it stores the boolean value of the scalar and returns the value it
  reads back, which is the stored one; a non-scalar input, more than one input or more
  than one output raises an error and leaves the burble as it is.
\<close>

theorem gbburble_get_set:
  "(nargout \<le> 1 \<longrightarrow> mexFunction g nargout [] = (Inr (mxCreateDoubleScalar (burble g)), g))
   \<and> (nargout \<le> 1 \<and> gb_mxarray_is_scalar x \<longrightarrow>
        mexFunction g nargout [x]
          = (Inr (mxCreateDoubleScalar (mxGetScalar x \<noteq> 0)), g\<lparr>burble := (mxGetScalar x \<noteq> 0)\<rparr>))
   \<and> (\<forall>v g'. mexFunction g nargout pargin = (Inr v, g') \<longrightarrow> v = mxCreateDoubleScalar (burble g'))
   \<and> (\<not> gb_mxarray_is_scalar x \<longrightarrow> (\<exists>msg. mexFunction g nargout [x] = (Inl msg, g)))
   \<and> (length pargin > 1 \<or> nargout > 1 \<longrightarrow> (\<exists>msg. mexFunction g nargout pargin = (Inl msg, g)))"
  by (auto simp: mexFunction_def Let_def GxB_Global_Option_set_BURBLE_def
      GxB_Global_Option_get_BURBLE_def split: if_splits sum.splits)

theorem gbburble_get_set_witness:
  "mexFunction \<lparr>burble = False\<rparr> 1 [] = (Inr 0, \<lparr>burble = False\<rparr>)
   \<and> mexFunction \<lparr>burble = False\<rparr> 1 [mxNumeric [2]] = (Inr 1, \<lparr>burble = True\<rparr>)
   \<and> (\<exists>msg. mexFunction \<lparr>burble = False\<rparr> 1 [mxNumeric [1, 0]] = (Inl msg, \<lparr>burble = False\<rparr>))
   \<and> (\<exists>msg. mexFunction \<lparr>burble = False\<rparr> 1 [mxNumeric [1], mxNumeric [1]]
         = (Inl msg, \<lparr>burble = False\<rparr>))"
  using gbburble_get_set [of 1 "\<lparr>burble = False\<rparr>" "mxNumeric [2]" "[]"]
    gbburble_get_set [of 1 "\<lparr>burble = False\<rparr>" "mxNumeric [1, 0]" "[mxNumeric [1], mxNumeric [1]]"]
  by (simp add: mxCreateDoubleScalar_def)

section \<open>Properties of the conform policy\<close>

text \<open>
  Merging keeps one entry for each cell, and the value of the entry is the value at the
  cell: what \<open>coalesce\<close> computes by insertion is what \<open>value_at\<close> defines by reduction.
\<close>

lemma cell_insert_tuple: "set (map cell (insert_tuple dup e xs)) = insert (cell e) (set (map cell xs))"
  by (induction xs) (auto simp: cell_def)

lemma cell_triple: "cell (i, j, v) = (i, j)"
  by (simp add: cell_def)

lemma cell_eq_triple: "cell (fst x, fst (snd x), v) = cell x"
  by (simp add: cell_def)

lemma distinct_insert_tuple:
  "distinct (map cell xs) \<Longrightarrow> distinct (map cell (insert_tuple dup e xs))"
proof (induction xs)
  case Nil
  then show ?case by simp
next
  case (Cons x xs)
  show ?case
  proof (cases "cell x = cell e")
    case True
    then show ?thesis
      using Cons.prems by (simp add: cell_eq_triple)
  next
    case False
    have "set (map cell (insert_tuple dup e xs)) = insert (cell e) (set (map cell xs))"
      by (rule cell_insert_tuple)
    then have "cell x \<notin> set (map cell (insert_tuple dup e xs))"
      using False Cons.prems by simp
    then show ?thesis
      using False Cons by simp
  qed
qed

lemma map_of_insert_tuple:
  "map_of (map (\<lambda>e. (cell e, snd (snd e))) (insert_tuple dup e xs)) c
     = (if cell e = c
        then (case map_of (map (\<lambda>e. (cell e, snd (snd e))) xs) c of
                None \<Rightarrow> Some (snd (snd e))
              | Some v \<Rightarrow> Some (dup v (snd (snd e))))
        else map_of (map (\<lambda>e. (cell e, snd (snd e))) xs) c)"
  by (induction xs) (auto simp: cell_def)

lemma value_at_snoc:
  "value_at dup (ts @ [e]) c
     = (if cell e = c
        then (case value_at dup ts c of
                None \<Rightarrow> Some (snd (snd e))
              | Some v \<Rightarrow> Some (dup v (snd (snd e))))
        else value_at dup ts c)"
  by (auto simp: value_at_def split: list.splits)

lemma coalesce_snoc: "coalesce dup (ts @ [e]) = insert_tuple dup e (coalesce dup ts)"
  by (simp add: coalesce_def)

lemma coalesce_Nil: "coalesce dup [] = []"
  by (simp add: coalesce_def)

lemma map_of_coalesce:
  "map_of (map (\<lambda>e. (cell e, snd (snd e))) (coalesce dup ts)) c = value_at dup ts c"
proof (induction ts rule: rev_induct)
  case Nil
  then show ?case by (simp add: coalesce_Nil value_at_def)
next
  case (snoc e ts)
  then show ?case
    by (simp only: coalesce_snoc map_of_insert_tuple value_at_snoc)
qed

lemma cells_coalesce: "set (map cell (coalesce dup ts)) = set (map cell ts)"
proof (induction ts rule: rev_induct)
  case Nil
  then show ?case by (simp add: coalesce_Nil)
next
  case (snoc e ts)
  then show ?case
    by (simp add: coalesce_snoc cell_insert_tuple del: set_map)
qed

lemma distinct_coalesce: "distinct (map cell (coalesce dup ts))"
proof (induction ts rule: rev_induct)
  case Nil
  then show ?case by (simp add: coalesce_Nil)
next
  case (snoc e ts)
  then show ?case
    by (simp add: coalesce_snoc distinct_insert_tuple)
qed

lemma value_at_distinct:
  "distinct (map cell ys) \<Longrightarrow>
   value_at dup ys c = map_of (map (\<lambda>e. (cell e, snd (snd e))) ys) c"
proof (induction ys)
  case Nil
  then show ?case by (simp add: value_at_def)
next
  case (Cons y ys)
  show ?case
  proof (cases "cell y = c")
    case True
    have "cell y \<notin> cell ` set ys"
      using Cons.prems by simp
    then have "\<forall>e \<in> set ys. cell e \<noteq> c"
      using True by blast
    then have "filter (\<lambda>e. cell e = c) ys = []"
      by (simp add: filter_empty_conv)
    then show ?thesis
      using True by (simp add: value_at_def)
  next
    case False
    have "value_at dup (y # ys) c = value_at dup ys c"
      using False by (simp add: value_at_def)
    then show ?thesis
      using False Cons by simp
  qed
qed

lemma not_zombie_coalesce:
  assumes "\<forall>e \<in> set ts. \<not> is_zombie e"
  shows "\<forall>e \<in> set (coalesce dup ts). \<not> is_zombie e"
proof
  fix e
  assume "e \<in> set (coalesce dup ts)"
  then have "cell e \<in> set (map cell (coalesce dup ts))"
    by simp
  then have "cell e \<in> set (map cell ts)"
    by (simp only: cells_coalesce)
  then obtain e' where "e' \<in> set ts" "cell e' = cell e"
    by auto
  then show "\<not> is_zombie e"
    using assms by (auto simp: is_zombie_def cell_def)
qed

lemma tuples_GB_wait:
  "tuples (GB_wait A) = sort_key (\<lambda>e. (fst (snd e), fst e)) (coalesce (reducer A) (tuples A))"
proof -
  have "\<forall>e \<in> set (tuples A). \<not> is_zombie e"
    by (auto simp: tuples_def)
  then have "\<forall>e \<in> set (coalesce (reducer A) (tuples A)). \<not> is_zombie e"
    by (rule not_zombie_coalesce)
  then have "filter (\<lambda>e. \<not> is_zombie e)
      (sort_key (\<lambda>e. (fst (snd e), fst e)) (coalesce (reducer A) (tuples A)))
    = sort_key (\<lambda>e. (fst (snd e), fst e)) (coalesce (reducer A) (tuples A))"
    by (intro filter_True) simp
  then show ?thesis
    by (simp add: tuples_def GB_wait_def)
qed

lemma value_at_GB_wait:
  "value_at (reducer A) (tuples (GB_wait A)) c = value_at (reducer A) (tuples A) c"
proof -
  let ?ys = "coalesce (reducer A) (tuples A)"
  let ?zs = "sort_key (\<lambda>e. (fst (snd e), fst e)) ?ys"
  let ?kv = "\<lambda>e. (cell e, snd (snd e))"
  have d: "distinct (map cell ?ys)"
    by (rule distinct_coalesce)
  have "mset (map cell ?zs) = mset (map cell ?ys)"
    by simp
  then have dz: "distinct (map cell ?zs)"
    using d by (metis mset_eq_imp_distinct_iff)
  have k: "map fst (map ?kv ?ys) = map cell ?ys" "map fst (map ?kv ?zs) = map cell ?zs"
    by simp_all
  have dk: "distinct (map fst (map ?kv ?zs))" "distinct (map fst (map ?kv ?ys))"
    using d dz by (simp_all only: k)
  have "set (map ?kv ?zs) = set (map ?kv ?ys)"
    by simp
  then have "map_of (map ?kv ?zs) = map_of (map ?kv ?ys)"
    using map_of_inject_set [OF dk] by blast
  then have "value_at (reducer A) ?zs c = map_of (map ?kv ?ys) c"
    using value_at_distinct [OF dz, of "reducer A" c] by simp
  then show ?thesis
    by (simp add: tuples_GB_wait map_of_coalesce)
qed

lemma cells_GB_wait: "set (map cell (tuples (GB_wait A))) = set (map cell (tuples A))"
proof -
  have "set (map cell (tuples (GB_wait A)))
      = set (map cell (coalesce (reducer A) (tuples A)))"
    by (simp add: tuples_GB_wait)
  then show ?thesis
    by (simp only: cells_coalesce)
qed

lemma reducer_GB_wait: "reducer (GB_wait A) = reducer A"
  by (simp add: GB_wait_def)

text \<open>Finishing the pending work keeps the live entries.\<close>

lemma live_GB_wait: "live (GB_wait A) = live A"
proof -
  have "mset (remdups (map cell (tuples (GB_wait A)))) = mset (remdups (map cell (tuples A)))"
    using cells_GB_wait [of A] by (simp only: set_eq_iff_mset_remdups_eq)
  moreover have "(\<lambda>c. map_option (\<lambda>v. (fst c, snd c, v))
        (value_at (reducer (GB_wait A)) (tuples (GB_wait A)) c))
      = (\<lambda>c. map_option (\<lambda>v. (fst c, snd c, v)) (value_at (reducer A) (tuples A) c))"
    by (simp add: reducer_GB_wait value_at_GB_wait)
  ultimately show ?thesis
    by (simp add: live_def List.map_filter_def)
qed

lemma live_structure_update: "live (A\<lparr>structure := f\<rparr>) = live A"
  by (simp add: live_def tuples_def)

lemma GB_OK_success:
  "GB_OK method rest = (GrB_SUCCESS, A') \<longleftrightarrow>
     fst method = GrB_SUCCESS \<and> rest (snd method) = (GrB_SUCCESS, A')"
  by (simp add: GB_OK_def)

lemma any_to_hyper_success:
  "fst (GB_convert_any_to_hyper mem A) = GrB_SUCCESS \<Longrightarrow>
     structure (snd (GB_convert_any_to_hyper mem A)) = Hypersparse
     \<and> live (snd (GB_convert_any_to_hyper mem A)) = live A"
  by (auto simp: GB_convert_any_to_hyper_def live_structure_update split: if_splits)

lemma any_to_sparse_success:
  "fst (GB_convert_any_to_sparse mem A) = GrB_SUCCESS \<Longrightarrow>
     structure (snd (GB_convert_any_to_sparse mem A)) = Sparse
     \<and> live (snd (GB_convert_any_to_sparse mem A)) = live A"
  by (auto simp: GB_convert_any_to_sparse_def live_structure_update split: if_splits)

lemma any_to_bitmap_success:
  "fst (GB_convert_any_to_bitmap mem A) = GrB_SUCCESS \<Longrightarrow>
     structure (snd (GB_convert_any_to_bitmap mem A)) = Bitmap
     \<and> live (snd (GB_convert_any_to_bitmap mem A)) = live A"
  by (auto simp: GB_convert_any_to_bitmap_def live_structure_update live_GB_wait split: if_splits)

lemma any_to_full_result:
  "structure (GB_convert_any_to_full A) = Full \<and> live (GB_convert_any_to_full A) = live A"
  by (simp add: GB_convert_any_to_full_def live_structure_update live_GB_wait)

lemma bitmap_to_sparse_success:
  "fst (GB_convert_bitmap_to_sparse mem A) = GrB_SUCCESS \<Longrightarrow>
     structure (snd (GB_convert_bitmap_to_sparse mem A)) = Sparse
     \<and> live (snd (GB_convert_bitmap_to_sparse mem A)) = live A"
  by (auto simp: GB_convert_bitmap_to_sparse_def live_structure_update split: if_splits)

lemma conform_hyper_success:
  "fst (GB_conform_hyper mem A) = GrB_SUCCESS \<Longrightarrow>
     live (snd (GB_conform_hyper mem A)) = live A
     \<and> (structure A = Hypersparse \<or> structure A = Sparse \<longrightarrow>
          structure (snd (GB_conform_hyper mem A)) = Hypersparse
          \<or> structure (snd (GB_conform_hyper mem A)) = Sparse)
     \<and> (structure A = Bitmap \<or> structure A = Full \<longrightarrow>
          structure (snd (GB_conform_hyper mem A)) = structure A)"
  by (auto simp: GB_conform_hyper_def live_structure_update split: if_splits)

lemma hyper_or_bitmap_success:
  assumes "fst (GB_hyper_or_bitmap mem (structure A = Hypersparse) (structure A = Sparse)
             (structure A = Bitmap) (structure A = Full) A) = GrB_SUCCESS"
  shows "live (snd (GB_hyper_or_bitmap mem (structure A = Hypersparse) (structure A = Sparse)
             (structure A = Bitmap) (structure A = Full) A)) = live A
    \<and> (structure (snd (GB_hyper_or_bitmap mem (structure A = Hypersparse) (structure A = Sparse)
             (structure A = Bitmap) (structure A = Full) A)) = Hypersparse
       \<or> structure (snd (GB_hyper_or_bitmap mem (structure A = Hypersparse) (structure A = Sparse)
             (structure A = Bitmap) (structure A = Full) A)) = Bitmap)"
  using assms
  by (cases "structure A")
    (auto simp: GB_hyper_or_bitmap_def GB_OK_def any_to_bitmap_success any_to_hyper_success
      split: if_splits)

lemma sparse_or_bitmap_success:
  assumes "fst (GB_sparse_or_bitmap mem (structure A = Hypersparse) (structure A = Sparse)
             (structure A = Bitmap) (structure A = Full) A) = GrB_SUCCESS"
  shows "live (snd (GB_sparse_or_bitmap mem (structure A = Hypersparse) (structure A = Sparse)
             (structure A = Bitmap) (structure A = Full) A)) = live A
    \<and> (structure (snd (GB_sparse_or_bitmap mem (structure A = Hypersparse) (structure A = Sparse)
             (structure A = Bitmap) (structure A = Full) A)) = Sparse
       \<or> structure (snd (GB_sparse_or_bitmap mem (structure A = Hypersparse) (structure A = Sparse)
             (structure A = Bitmap) (structure A = Full) A)) = Bitmap)"
  using assms
  by (cases "structure A")
    (auto simp: GB_sparse_or_bitmap_def GB_OK_def any_to_bitmap_success any_to_sparse_success
      split: if_splits)

lemma conform_hyper_after_success:
  assumes "fst m = GrB_SUCCESS \<longrightarrow> structure (snd m) \<noteq> Bitmap \<and> structure (snd m) \<noteq> Full
             \<and> live (snd m) = live A"
    and "fst (GB_OK m (\<lambda>A. GB_OK (GB_conform_hyper mem A) (\<lambda>A. (GrB_SUCCESS, A)))) = GrB_SUCCESS"
  shows "live (snd (GB_OK m (\<lambda>A. GB_OK (GB_conform_hyper mem A) (\<lambda>A. (GrB_SUCCESS, A))))) = live A
    \<and> (structure (snd (GB_OK m (\<lambda>A. GB_OK (GB_conform_hyper mem A) (\<lambda>A. (GrB_SUCCESS, A)))))
          = Hypersparse
       \<or> structure (snd (GB_OK m (\<lambda>A. GB_OK (GB_conform_hyper mem A) (\<lambda>A. (GrB_SUCCESS, A)))))
          = Sparse)"
proof -
  have 1: "fst m = GrB_SUCCESS"
    using assms(2) by (auto simp: GB_OK_def split: if_splits)
  have 2: "fst (GB_conform_hyper mem (snd m)) = GrB_SUCCESS"
    using assms(2) 1 by (auto simp: GB_OK_def split: if_splits)
  have 3: "structure (snd m) = Hypersparse \<or> structure (snd m) = Sparse"
    using assms(1) 1 by (cases "structure (snd m)") auto
  show ?thesis
    using 1 2 3 assms(1) conform_hyper_success [OF 2] by (auto simp: GB_OK_def)
qed

lemma hyper_sparse_or_bitmap_success:
  assumes "fst (GB_hyper_sparse_or_bitmap mem (structure A = Hypersparse) (structure A = Sparse)
             (structure A = Bitmap) (structure A = Full) A) = GrB_SUCCESS"
  shows "live (snd (GB_hyper_sparse_or_bitmap mem (structure A = Hypersparse)
             (structure A = Sparse) (structure A = Bitmap) (structure A = Full) A)) = live A
    \<and> structure (snd (GB_hyper_sparse_or_bitmap mem (structure A = Hypersparse)
             (structure A = Sparse) (structure A = Bitmap) (structure A = Full) A)) \<noteq> Full"
proof (cases "structure A = Full \<or> ((structure A = Hypersparse \<or> structure A = Sparse) \<and>
          GB_convert_sparse_to_bitmap_test (bitmap_switch A) (GB_NNZ A) (vlen A) (vdim A))")
  case True
  then show ?thesis
    using assms
    by (auto simp: GB_hyper_sparse_or_bitmap_def GB_OK_def any_to_bitmap_success split: if_splits)
next
  case nb: False
  show ?thesis
  proof (cases "structure A = Bitmap")
    case b: True
    show ?thesis
    proof (cases "GB_convert_bitmap_to_sparse_test (bitmap_switch A) (GB_NNZ A) (vlen A) (vdim A)")
      case True
      have e: "GB_hyper_sparse_or_bitmap mem (structure A = Hypersparse)
             (structure A = Sparse) (structure A = Bitmap) (structure A = Full) A
          = GB_OK (GB_convert_bitmap_to_sparse mem A) (\<lambda>A.
                 GB_OK (GB_conform_hyper mem A) (\<lambda>A. (GrB_SUCCESS, A)))"
        using nb b True by (simp add: GB_hyper_sparse_or_bitmap_def)
      show ?thesis
        using conform_hyper_after_success [of "GB_convert_bitmap_to_sparse mem A" A mem]
          assms bitmap_to_sparse_success [of mem A]
        unfolding e by auto
    next
      case False
      then show ?thesis
        using nb b by (simp add: GB_hyper_sparse_or_bitmap_def)
    qed
  next
    case False
    have e: "GB_hyper_sparse_or_bitmap mem (structure A = Hypersparse)
             (structure A = Sparse) (structure A = Bitmap) (structure A = Full) A
          = GB_OK (GB_conform_hyper mem A) (\<lambda>A. (GrB_SUCCESS, A))"
      using nb False by (auto simp: GB_hyper_sparse_or_bitmap_def)
    have s: "fst (GB_conform_hyper mem A) = GrB_SUCCESS"
      using assms unfolding e by (auto simp: GB_OK_def split: if_splits)
    have "structure A = Hypersparse \<or> structure A = Sparse"
      using nb False by (cases "structure A") auto
    then show ?thesis
      unfolding e using s conform_hyper_success [OF s] by (auto simp: GB_OK_def)
  qed
qed

lemmas GxB_defs =
  GxB_HYPERSPARSE_def GxB_SPARSE_def GxB_BITMAP_def GxB_FULL_def GxB_AUTO_SPARSITY_def

lemmas GB_IS_defs =
  GB_IS_HYPERSPARSE_def GB_IS_SPARSE_def GB_IS_BITMAP_def GB_IS_FULL_def

lemma lies_in_simps:
  "lies_in Hypersparse P \<longleftrightarrow> P mod 2 = 1"
  "lies_in Sparse P \<longleftrightarrow> (P div 2) mod 2 = 1"
  "lies_in Bitmap P \<longleftrightarrow> (P div 4) mod 2 = 1"
  "lies_in Full P \<longleftrightarrow> (P div 8) mod 2 = 1"
  by (simp_all add: lies_in_def GxB_defs)

lemma GB_conform_at_1:
  assumes "fst (GB_conform mem A) = GrB_SUCCESS" "sparsity A = 1"
  shows "live (snd (GB_conform mem A)) = live A \<and> (structure (snd (GB_conform mem A)) = Hypersparse)"
  using assms hyper_or_bitmap_success [of mem A] sparse_or_bitmap_success [of mem A]
  by (auto simp: GB_conform_def Let_def GxB_defs GB_IS_defs GB_OK_def any_to_hyper_success
      any_to_sparse_success any_to_bitmap_success any_to_full_result
      hyper_sparse_or_bitmap_success split: if_splits)

lemma GB_conform_at_2:
  assumes "fst (GB_conform mem A) = GrB_SUCCESS" "sparsity A = 2"
  shows "live (snd (GB_conform mem A)) = live A \<and> (structure (snd (GB_conform mem A)) = Sparse)"
  using assms hyper_or_bitmap_success [of mem A] sparse_or_bitmap_success [of mem A]
  by (auto simp: GB_conform_def Let_def GxB_defs GB_IS_defs GB_OK_def any_to_hyper_success
      any_to_sparse_success any_to_bitmap_success any_to_full_result
      hyper_sparse_or_bitmap_success split: if_splits)

lemma GB_conform_at_4:
  assumes "fst (GB_conform mem A) = GrB_SUCCESS" "sparsity A = 4"
  shows "live (snd (GB_conform mem A)) = live A \<and> (structure (snd (GB_conform mem A)) = Bitmap)"
  using assms hyper_or_bitmap_success [of mem A] sparse_or_bitmap_success [of mem A]
  by (auto simp: GB_conform_def Let_def GxB_defs GB_IS_defs GB_OK_def any_to_hyper_success
      any_to_sparse_success any_to_bitmap_success any_to_full_result
      hyper_sparse_or_bitmap_success split: if_splits)

lemma GB_conform_at_5:
  assumes "fst (GB_conform mem A) = GrB_SUCCESS" "sparsity A = 5"
  shows "live (snd (GB_conform mem A)) = live A \<and> (structure (snd (GB_conform mem A)) = Hypersparse \<or> structure (snd (GB_conform mem A)) = Bitmap)"
  using assms hyper_or_bitmap_success [of mem A] sparse_or_bitmap_success [of mem A]
  by (auto simp: GB_conform_def Let_def GxB_defs GB_IS_defs GB_OK_def any_to_hyper_success
      any_to_sparse_success any_to_bitmap_success any_to_full_result
      hyper_sparse_or_bitmap_success split: if_splits)

lemma GB_conform_at_6:
  assumes "fst (GB_conform mem A) = GrB_SUCCESS" "sparsity A = 6"
  shows "live (snd (GB_conform mem A)) = live A \<and> (structure (snd (GB_conform mem A)) = Sparse \<or> structure (snd (GB_conform mem A)) = Bitmap)"
  using assms hyper_or_bitmap_success [of mem A] sparse_or_bitmap_success [of mem A]
  by (auto simp: GB_conform_def Let_def GxB_defs GB_IS_defs GB_OK_def any_to_hyper_success
      any_to_sparse_success any_to_bitmap_success any_to_full_result
      hyper_sparse_or_bitmap_success split: if_splits)

lemma GB_conform_at_7:
  assumes "fst (GB_conform mem A) = GrB_SUCCESS" "sparsity A = 7"
  shows "live (snd (GB_conform mem A)) = live A \<and> (structure (snd (GB_conform mem A)) \<noteq> Full)"
  using assms hyper_or_bitmap_success [of mem A] sparse_or_bitmap_success [of mem A]
  by (auto simp: GB_conform_def Let_def GxB_defs GB_IS_defs GB_OK_def any_to_hyper_success
      any_to_sparse_success any_to_bitmap_success any_to_full_result
      hyper_sparse_or_bitmap_success split: if_splits)

lemma GB_conform_at_8:
  assumes "fst (GB_conform mem A) = GrB_SUCCESS" "sparsity A = 8"
  shows "live (snd (GB_conform mem A)) = live A \<and> ((if is_full_or_dense_with_no_pending_work A then structure (snd (GB_conform mem A)) = Full else structure (snd (GB_conform mem A)) = Bitmap))"
  using assms hyper_or_bitmap_success [of mem A] sparse_or_bitmap_success [of mem A]
  by (auto simp: GB_conform_def Let_def GxB_defs GB_IS_defs GB_OK_def any_to_hyper_success
      any_to_sparse_success any_to_bitmap_success any_to_full_result
      hyper_sparse_or_bitmap_success split: if_splits)

lemma GB_conform_at_9:
  assumes "fst (GB_conform mem A) = GrB_SUCCESS" "sparsity A = 9"
  shows "live (snd (GB_conform mem A)) = live A \<and> (structure (snd (GB_conform mem A)) = Hypersparse \<or> structure (snd (GB_conform mem A)) = Full)"
  using assms hyper_or_bitmap_success [of mem A] sparse_or_bitmap_success [of mem A]
  by (auto simp: GB_conform_def Let_def GxB_defs GB_IS_defs GB_OK_def any_to_hyper_success
      any_to_sparse_success any_to_bitmap_success any_to_full_result
      hyper_sparse_or_bitmap_success split: if_splits)

lemma GB_conform_at_10:
  assumes "fst (GB_conform mem A) = GrB_SUCCESS" "sparsity A = 10"
  shows "live (snd (GB_conform mem A)) = live A \<and> (structure (snd (GB_conform mem A)) = Sparse \<or> structure (snd (GB_conform mem A)) = Full)"
  using assms hyper_or_bitmap_success [of mem A] sparse_or_bitmap_success [of mem A]
  by (auto simp: GB_conform_def Let_def GxB_defs GB_IS_defs GB_OK_def any_to_hyper_success
      any_to_sparse_success any_to_bitmap_success any_to_full_result
      hyper_sparse_or_bitmap_success split: if_splits)

lemma GB_conform_at_12:
  assumes "fst (GB_conform mem A) = GrB_SUCCESS" "sparsity A = 12"
  shows "live (snd (GB_conform mem A)) = live A \<and> (structure (snd (GB_conform mem A)) = Bitmap \<or> structure (snd (GB_conform mem A)) = Full)"
  using assms hyper_or_bitmap_success [of mem A] sparse_or_bitmap_success [of mem A]
  by (auto simp: GB_conform_def Let_def GxB_defs GB_IS_defs GB_OK_def any_to_hyper_success
      any_to_sparse_success any_to_bitmap_success any_to_full_result
      hyper_sparse_or_bitmap_success split: if_splits)

lemma GB_conform_at_13:
  assumes "fst (GB_conform mem A) = GrB_SUCCESS" "sparsity A = 13"
  shows "live (snd (GB_conform mem A)) = live A \<and> (structure (snd (GB_conform mem A)) = Hypersparse \<or> structure (snd (GB_conform mem A)) = Bitmap \<or> structure (snd (GB_conform mem A)) = Full)"
  using assms hyper_or_bitmap_success [of mem A] sparse_or_bitmap_success [of mem A]
  by (auto simp: GB_conform_def Let_def GxB_defs GB_IS_defs GB_OK_def any_to_hyper_success
      any_to_sparse_success any_to_bitmap_success any_to_full_result
      hyper_sparse_or_bitmap_success split: if_splits)

lemma GB_conform_at_14:
  assumes "fst (GB_conform mem A) = GrB_SUCCESS" "sparsity A = 14"
  shows "live (snd (GB_conform mem A)) = live A \<and> (structure (snd (GB_conform mem A)) = Sparse \<or> structure (snd (GB_conform mem A)) = Bitmap \<or> structure (snd (GB_conform mem A)) = Full)"
  using assms hyper_or_bitmap_success [of mem A] sparse_or_bitmap_success [of mem A]
  by (auto simp: GB_conform_def Let_def GxB_defs GB_IS_defs GB_OK_def any_to_hyper_success
      any_to_sparse_success any_to_bitmap_success any_to_full_result
      hyper_sparse_or_bitmap_success split: if_splits)

lemma GB_conform_at_3:
  assumes "fst (GB_conform mem A) = GrB_SUCCESS" "sparsity A = 3"
  shows "live (snd (GB_conform mem A)) = live A
    \<and> (structure (snd (GB_conform mem A)) = Hypersparse
       \<or> structure (snd (GB_conform mem A)) = Sparse)"
proof -
  have e: "GB_conform mem A = (if structure A = Full \<or> structure A = Bitmap
            then GB_OK (GB_convert_any_to_sparse mem A) (\<lambda>A.
                 GB_OK (GB_conform_hyper mem A) (\<lambda>A. (GrB_SUCCESS, A)))
            else GB_OK (GB_conform_hyper mem A) (\<lambda>A. (GrB_SUCCESS, A)))"
    using assms(2) by (simp add: GB_conform_def Let_def GxB_defs GB_IS_defs)
  show ?thesis
  proof (cases "structure A = Full \<or> structure A = Bitmap")
    case True
    then show ?thesis
      using conform_hyper_after_success [of "GB_convert_any_to_sparse mem A" A mem]
        assms(1) any_to_sparse_success [of mem A]
      unfolding e by auto
  next
    case False
    then have s: "fst (GB_conform_hyper mem A) = GrB_SUCCESS"
      using assms(1) unfolding e by (auto simp: GB_OK_def split: if_splits)
    have "structure A = Hypersparse \<or> structure A = Sparse"
      using False by (cases "structure A") auto
    then show ?thesis
      unfolding e using s False conform_hyper_success [OF s] by (auto simp: GB_OK_def)
  qed
qed

lemma GB_conform_at_11:
  assumes "fst (GB_conform mem A) = GrB_SUCCESS" "sparsity A = 11"
  shows "live (snd (GB_conform mem A)) = live A \<and> structure (snd (GB_conform mem A)) \<noteq> Bitmap"
proof -
  have e: "GB_conform mem A =
      (if is_full_or_dense_with_no_pending_work A then (GrB_SUCCESS, GB_convert_any_to_full A)
       else if structure A = Bitmap
       then GB_OK (GB_convert_bitmap_to_sparse mem A) (\<lambda>A.
            GB_OK (GB_conform_hyper mem A) (\<lambda>A. (GrB_SUCCESS, A)))
       else GB_OK (GB_conform_hyper mem A) (\<lambda>A. (GrB_SUCCESS, A)))"
    using assms(2) by (simp add: GB_conform_def Let_def GxB_defs GB_IS_defs)
  show ?thesis
  proof (cases "is_full_or_dense_with_no_pending_work A")
    case True
    then show ?thesis
      unfolding e by (simp add: any_to_full_result)
  next
    case nd: False
    show ?thesis
    proof (cases "structure A = Bitmap")
      case True
      then show ?thesis
        using conform_hyper_after_success [of "GB_convert_bitmap_to_sparse mem A" A mem]
          assms(1) bitmap_to_sparse_success [of mem A] nd
        unfolding e by auto
    next
      case False
      then have s: "fst (GB_conform_hyper mem A) = GrB_SUCCESS"
        using assms(1) nd unfolding e by (auto simp: GB_OK_def split: if_splits)
      have "structure A \<noteq> Full"
        using nd by (simp add: is_full_or_dense_with_no_pending_work_def GB_IS_defs)
      then have "structure A = Hypersparse \<or> structure A = Sparse"
        using False by (cases "structure A") auto
      then show ?thesis
        unfolding e using s False nd conform_hyper_success [OF s] by (auto simp: GB_OK_def)
    qed
  qed
qed

lemma GB_conform_default_eq:
  assumes "sparsity A < 1 \<or> 14 < sparsity A"
  shows "GB_conform mem A =
      (if is_full_or_dense_with_no_pending_work A then (GrB_SUCCESS, GB_convert_any_to_full A)
       else GB_OK (GB_hyper_sparse_or_bitmap mem (GB_IS_HYPERSPARSE A) (GB_IS_SPARSE A)
                     (GB_IS_BITMAP A) (GB_IS_FULL A) A) (\<lambda>A. (GrB_SUCCESS, A)))"
  using assms by (auto simp: GB_conform_def Let_def GxB_defs)

lemma GB_conform_at_default:
  assumes "fst (GB_conform mem A) = GrB_SUCCESS" "sparsity A < 1 \<or> 14 < sparsity A"
  shows "live (snd (GB_conform mem A)) = live A"
  using assms(1) hyper_sparse_or_bitmap_success [of mem A]
  unfolding GB_conform_default_eq [OF assms(2)]
  by (auto simp: GB_IS_defs GB_OK_def any_to_full_result split: if_splits)

lemma GB_conform_live:
  assumes "fst (GB_conform mem A) = GrB_SUCCESS"
  shows "live (snd (GB_conform mem A)) = live A"
proof -
  have "(sparsity A < 1 \<or> 14 < sparsity A) \<or> sparsity A = 1 \<or> sparsity A = 2
    \<or> sparsity A = 3 \<or> sparsity A = 4 \<or> sparsity A = 5 \<or> sparsity A = 6
    \<or> sparsity A = 7 \<or> sparsity A = 8 \<or> sparsity A = 9 \<or> sparsity A = 10
    \<or> sparsity A = 11 \<or> sparsity A = 12 \<or> sparsity A = 13 \<or> sparsity A = 14"
    by arith
  then consider "sparsity A < 1 \<or> 14 < sparsity A" | "sparsity A = 1" | "sparsity A = 2"
    | "sparsity A = 3" | "sparsity A = 4" | "sparsity A = 5" | "sparsity A = 6"
    | "sparsity A = 7" | "sparsity A = 8" | "sparsity A = 9" | "sparsity A = 10"
    | "sparsity A = 11" | "sparsity A = 12" | "sparsity A = 13" | "sparsity A = 14"
    by blast
  then show ?thesis
    using assms
    by cases
      (simp_all add: GB_conform_at_default GB_conform_at_1 GB_conform_at_2 GB_conform_at_3
        GB_conform_at_4 GB_conform_at_5 GB_conform_at_6 GB_conform_at_7 GB_conform_at_8
        GB_conform_at_9 GB_conform_at_10 GB_conform_at_11 GB_conform_at_12 GB_conform_at_13
        GB_conform_at_14)
qed

text \<open>
  Claim C1, as amended. For every matrix and every policy among the fifteen non-zero
  masks, a successful \<^verbatim>\<open>GB_conform\<close> leaves the multiset of live entries as it was (the
  entries that are not zombies, one for each cell, with the value of the winner among
  the duplicates of the cell), and the format of the result lies in the policy, except
  for the policy FULL alone: there the result is full when the matrix is fully populated
  without pending work, and bitmap otherwise.
\<close>

theorem GB_conform_policy:
  assumes "fst (GB_conform mem A) = GrB_SUCCESS"
  shows "live (snd (GB_conform mem A)) = live A
    \<and> (1 \<le> sparsity A \<and> sparsity A \<le> 15 \<and> sparsity A \<noteq> GxB_FULL \<longrightarrow>
         lies_in (structure (snd (GB_conform mem A))) (sparsity A))
    \<and> (sparsity A = GxB_FULL \<longrightarrow>
         (if is_full_or_dense_with_no_pending_work A
          then structure (snd (GB_conform mem A)) = Full
          else structure (snd (GB_conform mem A)) = Bitmap))"
proof -
  let ?S = "structure (snd (GB_conform mem A))"
  have l: "live (snd (GB_conform mem A)) = live A"
    using assms by (rule GB_conform_live)
  have f: "sparsity A = GxB_FULL \<longrightarrow>
         (if is_full_or_dense_with_no_pending_work A then ?S = Full else ?S = Bitmap)"
    using GB_conform_at_8 [OF assms] by (simp add: GxB_defs)
  have p: "lies_in ?S (sparsity A)"
    if r: "1 \<le> sparsity A" "sparsity A \<le> 15" "sparsity A \<noteq> GxB_FULL"
  proof -
    have "sparsity A \<noteq> 8"
      using r by (simp add: GxB_defs)
    then have "sparsity A = 1 \<or> sparsity A = 2
      \<or> sparsity A = 3 \<or> sparsity A = 4 \<or> sparsity A = 5 \<or> sparsity A = 6
      \<or> sparsity A = 7 \<or> sparsity A = 9 \<or> sparsity A = 10
      \<or> sparsity A = 11 \<or> sparsity A = 12 \<or> sparsity A = 13 \<or> sparsity A = 14
      \<or> sparsity A = 15"
      using r(1,2) by arith
    then consider "sparsity A = 1" | "sparsity A = 2"
      | "sparsity A = 3" | "sparsity A = 4" | "sparsity A = 5" | "sparsity A = 6"
      | "sparsity A = 7" | "sparsity A = 9" | "sparsity A = 10"
      | "sparsity A = 11" | "sparsity A = 12" | "sparsity A = 13" | "sparsity A = 14"
      | "sparsity A = 15"
      by blast
    then show ?thesis
    proof cases
      case 1
      then show ?thesis using GB_conform_at_1 [OF assms] by (auto simp: lies_in_simps)
    next
      case 2
      then show ?thesis using GB_conform_at_2 [OF assms] by (auto simp: lies_in_simps)
    next
      case 3
      then show ?thesis using GB_conform_at_3 [OF assms] by (auto simp: lies_in_simps)
    next
      case 4
      then show ?thesis using GB_conform_at_4 [OF assms] by (auto simp: lies_in_simps)
    next
      case 5
      then show ?thesis using GB_conform_at_5 [OF assms] by (auto simp: lies_in_simps)
    next
      case 6
      then show ?thesis using GB_conform_at_6 [OF assms] by (auto simp: lies_in_simps)
    next
      case 7
      then show ?thesis using GB_conform_at_7 [OF assms] by (cases ?S) (auto simp: lies_in_simps)
    next
      case 8
      then show ?thesis using GB_conform_at_9 [OF assms] by (auto simp: lies_in_simps)
    next
      case 9
      then show ?thesis using GB_conform_at_10 [OF assms] by (auto simp: lies_in_simps)
    next
      case 10
      then show ?thesis using GB_conform_at_11 [OF assms] by (cases ?S) (auto simp: lies_in_simps)
    next
      case 11
      then show ?thesis using GB_conform_at_12 [OF assms] by (auto simp: lies_in_simps)
    next
      case 12
      then show ?thesis using GB_conform_at_13 [OF assms] by (auto simp: lies_in_simps)
    next
      case 13
      then show ?thesis using GB_conform_at_14 [OF assms] by (auto simp: lies_in_simps)
    next
      case 14
      then show ?thesis by (cases ?S) (auto simp: lies_in_simps)
    qed
  qed
  show ?thesis
    using l f p by blast
qed

lemmas conform_eval =
  GB_conform_def Let_def GxB_defs GB_IS_defs GB_OK_def GB_hyper_or_bitmap_def
  GB_sparse_or_bitmap_def GB_hyper_sparse_or_bitmap_def GB_conform_hyper_def
  GB_convert_any_to_hyper_def GB_convert_any_to_sparse_def GB_convert_any_to_bitmap_def
  GB_convert_any_to_full_def GB_convert_bitmap_to_sparse_def
  is_full_or_dense_with_no_pending_work_def GB_is_dense_def GB_NNZ_def GB_ZOMBIES_def
  GB_JUMBLED_def GB_PENDING_def nzombies_def n_pending_def is_zombie_def
  GB_convert_sparse_to_bitmap_test_def GB_convert_bitmap_to_sparse_test_def
  GB_convert_hyper_to_sparse_test_def GB_convert_sparse_to_hyper_test_def
  GB_nvec_nonempty_def all_memory_def no_memory_def

lemma small_matrix_5:
  "GB_conform all_memory (small_matrix 5 Sparse)
     = (GrB_SUCCESS, (GB_wait (small_matrix 5 Sparse))\<lparr>structure := Bitmap\<rparr>)"
  by (simp add: conform_eval small_matrix_def)

lemma small_matrix_live:
  "live (small_matrix P f) = {#(0, 0, 7), (3, 2, 9), (2, 2, 4), (1, 3, 6)#}"
  by (simp add: live_def tuples_def value_at_def cell_def is_zombie_def small_matrix_def
      List.map_filter_def)

lemma small_matrix_wait:
  "entries (GB_wait (small_matrix P f)) = [(0, 0, 7), (2, 2, 4), (3, 2, 9), (1, 3, 6)]"
  by (simp add: GB_wait_def coalesce_def tuples_def cell_def is_zombie_def small_matrix_def)

text \<open>
  The example matrix under the policy HYPERSPARSE + BITMAP: of its five tuples that are
  not zombies two name the cell \<open>(1, 3)\<close>, so it has four live entries; the conversion to
  bitmap stores exactly these four.
\<close>

theorem GB_conform_policy_witness:
  "fst (GB_conform all_memory (small_matrix 5 Sparse)) = GrB_SUCCESS
   \<and> live (snd (GB_conform all_memory (small_matrix 5 Sparse))) = live (small_matrix 5 Sparse)
   \<and> live (small_matrix 5 Sparse) = {#(0, 0, 7), (3, 2, 9), (2, 2, 4), (1, 3, 6)#}
   \<and> entries (snd (GB_conform all_memory (small_matrix 5 Sparse)))
       = [(0, 0, 7), (2, 2, 4), (3, 2, 9), (1, 3, 6)]
   \<and> lies_in (structure (snd (GB_conform all_memory (small_matrix 5 Sparse)))) 5"
proof -
  have s: "fst (GB_conform all_memory (small_matrix 5 Sparse)) = GrB_SUCCESS"
    by (simp add: small_matrix_5)
  have p: "sparsity (small_matrix 5 Sparse) = 5"
    by (simp add: small_matrix_def)
  have e: "entries (snd (GB_conform all_memory (small_matrix 5 Sparse)))
      = [(0, 0, 7), (2, 2, 4), (3, 2, 9), (1, 3, 6)]"
    by (simp add: small_matrix_5 small_matrix_wait)
  note k = GB_conform_policy [OF s]
  have l: "live (snd (GB_conform all_memory (small_matrix 5 Sparse))) = live (small_matrix 5 Sparse)"
    by (rule k [THEN conjunct1])
  have f: "lies_in (structure (snd (GB_conform all_memory (small_matrix 5 Sparse)))) 5"
    using k [THEN conjunct2, THEN conjunct1] by (simp add: p GxB_defs)
  show ?thesis
    by (intro conjI s l small_matrix_live e f)
qed

text \<open>
  The claim as stated fails for the policy FULL alone: the example matrix, sparse with
  four live entries in 16 cells, is conformed with success and ends in the bitmap
  format, which is not in the policy.
\<close>

theorem GB_conform_policy_counterexample:
  "fst (GB_conform all_memory (small_matrix GxB_FULL Sparse)) = GrB_SUCCESS
   \<and> \<not> lies_in (structure (snd (GB_conform all_memory (small_matrix GxB_FULL Sparse))))
         (sparsity (small_matrix GxB_FULL Sparse))"
proof -
  have "GB_conform all_memory (small_matrix GxB_FULL Sparse)
     = (GrB_SUCCESS, (GB_wait (small_matrix GxB_FULL Sparse))\<lparr>structure := Bitmap\<rparr>)"
    by (simp add: conform_eval small_matrix_def)
  then show ?thesis
    by (simp add: lies_in_simps small_matrix_def GxB_defs)
qed

text \<open>
  Claim C2. Under the policy HYPERSPARSE + BITMAP, a successful \<^verbatim>\<open>GB_conform\<close> leaves the
  matrix in bitmap format exactly when it was full or
  \<open>nnz \<ge> bitmap_switch * vlen * vdim\<close>, and in hypersparse format exactly otherwise; the
  result is always one of the two.
\<close>

theorem GB_conform_hyper_or_bitmap:
  assumes "sparsity A = GxB_HYPERSPARSE + GxB_BITMAP"
    and "fst (GB_conform mem A) = GrB_SUCCESS"
  shows "(structure (snd (GB_conform mem A)) = Bitmap \<longleftrightarrow>
           structure A = Full
           \<or> real_of_int (GB_NNZ A) \<ge> bitmap_switch A * real_of_int (vlen A) * real_of_int (vdim A))
    \<and> (structure (snd (GB_conform mem A)) = Hypersparse \<longleftrightarrow>
           structure A \<noteq> Full
           \<and> real_of_int (GB_NNZ A) < bitmap_switch A * real_of_int (vlen A) * real_of_int (vdim A))
    \<and> (structure (snd (GB_conform mem A)) = Hypersparse
       \<or> structure (snd (GB_conform mem A)) = Bitmap)"
proof -
  have e: "GB_conform mem A = GB_OK (GB_hyper_or_bitmap mem (structure A = Hypersparse)
      (structure A = Sparse) (structure A = Bitmap) (structure A = Full) A) (\<lambda>A. (GrB_SUCCESS, A))"
    using assms(1) by (simp add: GB_conform_def Let_def GxB_defs GB_IS_defs)
  show ?thesis
    using assms(2) unfolding e
    by (cases "structure A")
      (auto simp: GB_hyper_or_bitmap_def GB_OK_def any_to_bitmap_success any_to_hyper_success
        GB_convert_sparse_to_bitmap_test_def GB_convert_bitmap_to_sparse_test_def
        split: if_splits)
qed

theorem GB_conform_hyper_or_bitmap_witness:
  "structure (snd (GB_conform all_memory (small_matrix 5 Hypersparse))) = Bitmap
   \<and> structure (snd (GB_conform all_memory (clean_matrix 5 Bitmap))) = Hypersparse"
proof -
  have 1: "sparsity (small_matrix 5 Hypersparse) = GxB_HYPERSPARSE + GxB_BITMAP"
    "sparsity (clean_matrix 5 Bitmap) = GxB_HYPERSPARSE + GxB_BITMAP"
    by (simp_all add: small_matrix_def clean_matrix_def GxB_defs)
  have 2: "fst (GB_conform all_memory (small_matrix 5 Hypersparse)) = GrB_SUCCESS"
    "fst (GB_conform all_memory (clean_matrix 5 Bitmap)) = GrB_SUCCESS"
    by (simp_all add: conform_eval small_matrix_def clean_matrix_def)
  have 3: "real_of_int (GB_NNZ (small_matrix 5 Hypersparse))
      \<ge> bitmap_switch (small_matrix 5 Hypersparse) * real_of_int (vlen (small_matrix 5 Hypersparse))
          * real_of_int (vdim (small_matrix 5 Hypersparse))"
    by (simp add: small_matrix_def GB_NNZ_def)
  have 4: "structure (clean_matrix 5 Bitmap) \<noteq> Full
    \<and> real_of_int (GB_NNZ (clean_matrix 5 Bitmap))
      < bitmap_switch (clean_matrix 5 Bitmap) * real_of_int (vlen (clean_matrix 5 Bitmap))
          * real_of_int (vdim (clean_matrix 5 Bitmap))"
    by (simp add: clean_matrix_def GB_NNZ_def)
  show ?thesis
    using GB_conform_hyper_or_bitmap [OF 1(1) 2(1)] GB_conform_hyper_or_bitmap [OF 1(2) 2(2)] 3 4
    by blast
qed

text \<open>
  Claim C3. Under the policy AUTO a matrix that is fully populated without pending work
  (already full, or \<open>nnz = vlen * vdim\<close> with no zombies, not jumbled and no pending
  tuples) is left in the full format by \<^verbatim>\<open>GB_conform\<close>, which succeeds.
\<close>

theorem GB_conform_auto_dense:
  assumes "sparsity A = GxB_AUTO_SPARSITY"
    and "structure A = Full
         \<or> (GB_NNZ A = vlen A * vdim A \<and> nzombies A = 0 \<and> \<not> jumbled A \<and> n_pending A = 0)"
  shows "fst (GB_conform mem A) = GrB_SUCCESS \<and> structure (snd (GB_conform mem A)) = Full"
proof -
  have d: "is_full_or_dense_with_no_pending_work A"
    using assms(2)
    by (auto simp: is_full_or_dense_with_no_pending_work_def GB_IS_defs GB_is_dense_def
        GB_ZOMBIES_def GB_JUMBLED_def GB_PENDING_def)
  have "sparsity A < 1 \<or> 14 < sparsity A"
    using assms(1) by (simp add: GxB_defs)
  then have "GB_conform mem A = (GrB_SUCCESS, GB_convert_any_to_full A)"
    using d by (simp add: GB_conform_default_eq)
  then show ?thesis
    by (simp add: any_to_full_result)
qed

theorem GB_conform_auto_dense_witness:
  "fst (GB_conform no_memory dense_matrix) = GrB_SUCCESS
   \<and> structure (snd (GB_conform no_memory dense_matrix)) = Full"
proof -
  have 1: "sparsity dense_matrix = GxB_AUTO_SPARSITY"
    by (simp add: dense_matrix_def)
  have 2: "GB_NNZ dense_matrix = vlen dense_matrix * vdim dense_matrix"
    by (simp add: dense_matrix_def GB_NNZ_def)
  have 3: "nzombies dense_matrix = 0"
    by (auto simp: dense_matrix_def nzombies_def is_zombie_def filter_empty_conv)
  have 4: "\<not> jumbled dense_matrix \<and> n_pending dense_matrix = 0"
    by (simp add: dense_matrix_def n_pending_def)
  show ?thesis
    using GB_conform_auto_dense [of dense_matrix no_memory] 1 2 3 4 by blast
qed

lemma hyper_tests_complement:
  "GB_convert_sparse_to_hyper_test h n d = (\<not> GB_convert_hyper_to_sparse_test h n d)"
  by (auto simp: GB_convert_sparse_to_hyper_test_def GB_convert_hyper_to_sparse_test_def)

lemma conform_hyper_fixed:
  assumes "\<not> (structure A = Hypersparse
       \<and> GB_convert_hyper_to_sparse_test (hyper_switch A) (GB_nvec_nonempty A) (vdim A))"
    and "\<not> (structure A = Sparse
       \<and> GB_convert_sparse_to_hyper_test (hyper_switch A) (GB_nvec_nonempty A) (vdim A))"
  shows "GB_conform_hyper mem A = (GrB_SUCCESS, A)"
  using assms unfolding GB_conform_hyper_def by (simp only: if_False)

lemma conform_hyper_success_fixed:
  assumes "fst (GB_conform_hyper mem A) = GrB_SUCCESS"
  shows "GB_conform_hyper mem' (snd (GB_conform_hyper mem A)) = GB_conform_hyper mem A"
proof -
  let ?h = "GB_convert_hyper_to_sparse_test (hyper_switch A) (GB_nvec_nonempty A) (vdim A)"
  consider (hs) "structure A = Hypersparse \<and> ?h" | (sh) "structure A = Sparse \<and> \<not> ?h"
    | (no) "\<not> (structure A = Hypersparse \<and> ?h) \<and> \<not> (structure A = Sparse \<and> \<not> ?h)"
    by blast
  then show ?thesis
  proof cases
    case hs
    then have m: "mem Hyper_to_sparse"
      using assms by (auto simp: GB_conform_hyper_def split: if_splits)
    have e: "GB_conform_hyper mem A = (GrB_SUCCESS, A\<lparr>structure := Sparse\<rparr>)"
      using hs m by (simp add: GB_conform_hyper_def)
    have "GB_conform_hyper mem' (A\<lparr>structure := Sparse\<rparr>) = (GrB_SUCCESS, A\<lparr>structure := Sparse\<rparr>)"
      using hs by (intro conform_hyper_fixed) (simp_all add: hyper_tests_complement GB_nvec_nonempty_def)
    then show ?thesis
      by (simp add: e)
  next
    case sh
    then have m: "mem Sparse_to_hyper"
      using assms by (auto simp: GB_conform_hyper_def hyper_tests_complement split: if_splits)
    have e: "GB_conform_hyper mem A = (GrB_SUCCESS, A\<lparr>structure := Hypersparse\<rparr>)"
      using sh m by (simp add: GB_conform_hyper_def hyper_tests_complement)
    have "GB_conform_hyper mem' (A\<lparr>structure := Hypersparse\<rparr>)
        = (GrB_SUCCESS, A\<lparr>structure := Hypersparse\<rparr>)"
      using sh by (intro conform_hyper_fixed) (simp_all add: hyper_tests_complement GB_nvec_nonempty_def)
    then show ?thesis
      by (simp add: e)
  next
    case no
    then have e: "GB_conform_hyper m A = (GrB_SUCCESS, A)" for m
      by (intro conform_hyper_fixed) (simp_all add: hyper_tests_complement)
    show ?thesis
      by (simp add: e)
  qed
qed

lemma conform_hyper_failure:
  assumes "fst (GB_conform_hyper mem A) \<noteq> GrB_SUCCESS"
  shows "snd (GB_conform_hyper mem A) = GB_phbix_free A
    \<and> (structure A = Hypersparse \<longrightarrow> \<not> mem Hyper_to_sparse)
    \<and> (structure A = Sparse \<longrightarrow> \<not> mem Sparse_to_hyper)
    \<and> (structure A = Hypersparse \<or> structure A = Sparse)"
  using assms by (auto simp: GB_conform_hyper_def split: if_splits)

lemma conform_hyper_no_memory:
  assumes "structure A = Hypersparse \<longrightarrow> \<not> mem Hyper_to_sparse"
    and "structure A = Sparse \<longrightarrow> \<not> mem Sparse_to_hyper"
  shows "snd (GB_conform_hyper mem A) = A \<or> snd (GB_conform_hyper mem A) = GB_phbix_free A"
  using assms by (auto simp: GB_conform_hyper_def split: if_splits)

text \<open>
  Claim C6. \<^verbatim>\<open>GB_conform_hyper\<close> reaches a fixed point in one application: applied to
  its own result it returns that result, whatever the memory then is, since a matrix
  that has passed one of the two tests fails the other; and it never produces a bitmap
  or full matrix: a result in one of these formats is the format the matrix had.
\<close>

theorem GB_conform_hyper_idempotent:
  "snd (GB_conform_hyper mem (snd (GB_conform_hyper mem A))) = snd (GB_conform_hyper mem A)
   \<and> (fst (GB_conform_hyper mem A) = GrB_SUCCESS \<longrightarrow>
        GB_conform_hyper mem' (snd (GB_conform_hyper mem A)) = GB_conform_hyper mem A)
   \<and> (structure (snd (GB_conform_hyper mem A)) = Bitmap
        \<or> structure (snd (GB_conform_hyper mem A)) = Full \<longrightarrow>
        structure (snd (GB_conform_hyper mem A)) = structure A)"
proof -
  have 1: "snd (GB_conform_hyper mem (snd (GB_conform_hyper mem A)))
      = snd (GB_conform_hyper mem A)"
  proof (cases "fst (GB_conform_hyper mem A) = GrB_SUCCESS")
    case True
    then show ?thesis
      by (simp add: conform_hyper_success_fixed)
  next
    case False
    note f = conform_hyper_failure [OF False]
    have "structure (GB_phbix_free A) = structure A" "GB_phbix_free (GB_phbix_free A) = GB_phbix_free A"
      by (simp_all add: GB_phbix_free_def)
    then show ?thesis
      using f conform_hyper_no_memory [of "GB_phbix_free A" mem] by auto
  qed
  have 2: "GB_conform_hyper mem' (snd (GB_conform_hyper mem A)) = GB_conform_hyper mem A"
    if "fst (GB_conform_hyper mem A) = GrB_SUCCESS"
    using that by (rule conform_hyper_success_fixed)
  have 3: "structure (snd (GB_conform_hyper mem A)) = Bitmap
        \<or> structure (snd (GB_conform_hyper mem A)) = Full \<longrightarrow>
        structure (snd (GB_conform_hyper mem A)) = structure A"
    by (auto simp: GB_conform_hyper_def GB_phbix_free_def split: if_splits)
  show ?thesis
    using 1 2 3 by blast
qed

theorem GB_conform_hyper_idempotent_witness:
  "fst (GB_conform_hyper all_memory (small_matrix 3 Hypersparse)) = GrB_SUCCESS
   \<and> structure (snd (GB_conform_hyper all_memory (small_matrix 3 Hypersparse))) = Sparse
   \<and> GB_conform_hyper no_memory (snd (GB_conform_hyper all_memory (small_matrix 3 Hypersparse)))
       = GB_conform_hyper all_memory (small_matrix 3 Hypersparse)"
proof -
  have e: "GB_conform_hyper all_memory (small_matrix 3 Hypersparse)
      = (GrB_SUCCESS, (small_matrix 3 Hypersparse)\<lparr>structure := Sparse\<rparr>)"
    by (simp add: GB_conform_hyper_def GB_convert_hyper_to_sparse_test_def
        GB_nvec_nonempty_def small_matrix_def all_memory_def)
  then have s: "fst (GB_conform_hyper all_memory (small_matrix 3 Hypersparse)) = GrB_SUCCESS"
    by simp
  have t: "structure (snd (GB_conform_hyper all_memory (small_matrix 3 Hypersparse))) = Sparse"
    using e by simp
  show ?thesis
    using s t GB_conform_hyper_idempotent
      [of all_memory "small_matrix 3 Hypersparse" no_memory]
    by blast
qed

lemma GB_OK_sparsity:
  assumes "m' = (fst m, (snd m)\<lparr>sparsity := P\<rparr>)"
    and "\<And>X. rest (X\<lparr>sparsity := P\<rparr>) = (fst (rest X), (snd (rest X))\<lparr>sparsity := P\<rparr>)"
  shows "GB_OK m' rest = (fst (GB_OK m rest), (snd (GB_OK m rest))\<lparr>sparsity := P\<rparr>)"
  by (simp add: GB_OK_def GB_phbix_free_def assms)

lemma any_to_bitmap_sparsity:
  "GB_convert_any_to_bitmap mem (A\<lparr>sparsity := P\<rparr>)
     = (fst (GB_convert_any_to_bitmap mem A), (snd (GB_convert_any_to_bitmap mem A))\<lparr>sparsity := P\<rparr>)"
  by (simp add: GB_convert_any_to_bitmap_def GB_wait_def tuples_def GB_phbix_free_def)

lemma bitmap_to_sparse_sparsity:
  "GB_convert_bitmap_to_sparse mem (A\<lparr>sparsity := P\<rparr>)
     = (fst (GB_convert_bitmap_to_sparse mem A),
        (snd (GB_convert_bitmap_to_sparse mem A))\<lparr>sparsity := P\<rparr>)"
  by (simp add: GB_convert_bitmap_to_sparse_def GB_phbix_free_def)

lemma conform_hyper_sparsity:
  "GB_conform_hyper mem (A\<lparr>sparsity := P\<rparr>)
     = (fst (GB_conform_hyper mem A), (snd (GB_conform_hyper mem A))\<lparr>sparsity := P\<rparr>)"
  by (simp add: GB_conform_hyper_def GB_phbix_free_def GB_nvec_nonempty_def)

lemma hyper_sparse_or_bitmap_sparsity:
  "GB_hyper_sparse_or_bitmap mem h s b f (A\<lparr>sparsity := P\<rparr>)
     = (fst (GB_hyper_sparse_or_bitmap mem h s b f A),
        (snd (GB_hyper_sparse_or_bitmap mem h s b f A))\<lparr>sparsity := P\<rparr>)"
proof -
  have n: "GB_NNZ (A\<lparr>sparsity := P\<rparr>) = GB_NNZ A"
    by (simp add: GB_NNZ_def)
  have c: "GB_OK (GB_conform_hyper mem (X\<lparr>sparsity := P\<rparr>)) (\<lambda>A. (GrB_SUCCESS, A))
      = (fst (GB_OK (GB_conform_hyper mem X) (\<lambda>A. (GrB_SUCCESS, A))),
         (snd (GB_OK (GB_conform_hyper mem X) (\<lambda>A. (GrB_SUCCESS, A))))\<lparr>sparsity := P\<rparr>)" for X
    by (rule GB_OK_sparsity) (simp_all add: conform_hyper_sparsity)
  have t: "GB_OK (GB_convert_any_to_bitmap mem (A\<lparr>sparsity := P\<rparr>)) (\<lambda>A. (GrB_SUCCESS, A))
      = (fst (GB_OK (GB_convert_any_to_bitmap mem A) (\<lambda>A. (GrB_SUCCESS, A))),
         (snd (GB_OK (GB_convert_any_to_bitmap mem A) (\<lambda>A. (GrB_SUCCESS, A))))\<lparr>sparsity := P\<rparr>)"
    by (rule GB_OK_sparsity) (simp_all add: any_to_bitmap_sparsity)
  have u: "GB_OK (GB_convert_bitmap_to_sparse mem (A\<lparr>sparsity := P\<rparr>))
        (\<lambda>A. GB_OK (GB_conform_hyper mem A) (\<lambda>A. (GrB_SUCCESS, A)))
      = (fst (GB_OK (GB_convert_bitmap_to_sparse mem A)
            (\<lambda>A. GB_OK (GB_conform_hyper mem A) (\<lambda>A. (GrB_SUCCESS, A)))),
         (snd (GB_OK (GB_convert_bitmap_to_sparse mem A)
            (\<lambda>A. GB_OK (GB_conform_hyper mem A) (\<lambda>A. (GrB_SUCCESS, A)))))\<lparr>sparsity := P\<rparr>)"
    by (rule GB_OK_sparsity) (simp_all add: bitmap_to_sparse_sparsity c)
  show ?thesis
    unfolding GB_hyper_sparse_or_bitmap_def by (auto simp: n c t u)
qed

lemma success_or_no_memory:
  "fst (GB_convert_any_to_bitmap mem A) = GrB_SUCCESS
     \<or> fst (GB_convert_any_to_bitmap mem A) = OutOfMemory"
  "fst (GB_convert_bitmap_to_sparse mem A) = GrB_SUCCESS
     \<or> fst (GB_convert_bitmap_to_sparse mem A) = OutOfMemory"
  "fst (GB_conform_hyper mem A) = GrB_SUCCESS \<or> fst (GB_conform_hyper mem A) = OutOfMemory"
  by (simp_all add: GB_convert_any_to_bitmap_def GB_convert_bitmap_to_sparse_def
      GB_conform_hyper_def)

lemma GB_OK_info:
  assumes "fst m = GrB_SUCCESS \<or> fst m = OutOfMemory"
    and "\<And>X. fst (rest X) = GrB_SUCCESS \<or> fst (rest X) = OutOfMemory"
  shows "fst (GB_OK m rest) = GrB_SUCCESS \<or> fst (GB_OK m rest) = OutOfMemory"
  using assms by (auto simp: GB_OK_def)

lemma hyper_sparse_or_bitmap_info:
  "fst (GB_hyper_sparse_or_bitmap mem h s b f A) = GrB_SUCCESS
   \<or> fst (GB_hyper_sparse_or_bitmap mem h s b f A) = OutOfMemory"
  unfolding GB_hyper_sparse_or_bitmap_def
  by (simp add: GB_OK_info success_or_no_memory)

lemma hyper_sparse_or_bitmap_all_memory:
  assumes "\<forall>c. mem c"
  shows "fst (GB_hyper_sparse_or_bitmap mem h s b f A) = GrB_SUCCESS"
proof -
  have "fst (GB_convert_any_to_bitmap mem X) = GrB_SUCCESS"
    "fst (GB_convert_bitmap_to_sparse mem X) = GrB_SUCCESS"
    "fst (GB_conform_hyper mem X) = GrB_SUCCESS" for X :: "'a GrB_Matrix"
    using assms
    by (simp_all add: GB_convert_any_to_bitmap_def GB_convert_bitmap_to_sparse_def
        GB_conform_hyper_def)
  then show ?thesis
    by (simp add: GB_hyper_sparse_or_bitmap_def GB_OK_def)
qed

lemma GB_OK_keeps_sparsity:
  assumes "sparsity (snd m) = P"
    and "\<And>X. sparsity X = P \<Longrightarrow> sparsity (snd (rest X)) = P"
  shows "sparsity (snd (GB_OK m rest)) = P"
  using assms by (simp add: GB_OK_def GB_phbix_free_def)

lemma converters_keep_sparsity:
  "sparsity (snd (GB_convert_any_to_bitmap mem A)) = sparsity A"
  "sparsity (snd (GB_convert_bitmap_to_sparse mem A)) = sparsity A"
  "sparsity (snd (GB_conform_hyper mem A)) = sparsity A"
  "sparsity (GB_convert_any_to_full A) = sparsity A"
  by (simp_all add: GB_convert_any_to_bitmap_def GB_convert_bitmap_to_sparse_def
      GB_conform_hyper_def GB_convert_any_to_full_def GB_wait_def GB_phbix_free_def)

lemma hyper_sparse_or_bitmap_keeps_sparsity:
  "sparsity (snd (GB_hyper_sparse_or_bitmap mem h s b f A)) = sparsity A"
  unfolding GB_hyper_sparse_or_bitmap_def
  by (simp add: GB_OK_keeps_sparsity converters_keep_sparsity)

text \<open>
  Claim C10. \<^verbatim>\<open>GB_conform\<close> rejects no value of the sparsity control. A value that is
  none of the fourteen enumerated combinations 1 to 14 (0 among them) takes the default
  case of the switch, which is the case of AUTO: to full when the matrix is fully
  populated without pending work, and through \<^verbatim>\<open>GB_hyper_sparse_or_bitmap\<close> otherwise.
  The result is the one for AUTO, the code returned is never \<open>BadInput\<close>, and it is
  \<open>GrB_SUCCESS\<close> when the conversions find their memory.
\<close>

theorem GB_conform_default:
  assumes "sparsity A < 1 \<or> 14 < sparsity A"
  shows "GB_conform mem A =
      (if is_full_or_dense_with_no_pending_work A then (GrB_SUCCESS, GB_convert_any_to_full A)
       else GB_OK (GB_hyper_sparse_or_bitmap mem (GB_IS_HYPERSPARSE A) (GB_IS_SPARSE A)
                     (GB_IS_BITMAP A) (GB_IS_FULL A) A) (\<lambda>A. (GrB_SUCCESS, A)))
    \<and> fst (GB_conform mem A) = fst (GB_conform mem (A\<lparr>sparsity := GxB_AUTO_SPARSITY\<rparr>))
    \<and> snd (GB_conform mem A)
        = (snd (GB_conform mem (A\<lparr>sparsity := GxB_AUTO_SPARSITY\<rparr>)))\<lparr>sparsity := sparsity A\<rparr>
    \<and> fst (GB_conform mem A) \<noteq> BadInput
    \<and> ((\<forall>c. mem c) \<longrightarrow> fst (GB_conform mem A) = GrB_SUCCESS)"
proof -
  let ?B = "A\<lparr>sparsity := GxB_AUTO_SPARSITY\<rparr>"
  let ?h = "GB_hyper_sparse_or_bitmap mem (GB_IS_HYPERSPARSE A) (GB_IS_SPARSE A)
                     (GB_IS_BITMAP A) (GB_IS_FULL A)"
  note e = GB_conform_default_eq [OF assms, of mem]
  have "sparsity ?B < 1 \<or> 14 < sparsity ?B"
    by (simp add: GxB_defs)
  note b = GB_conform_default_eq [OF this, of mem]
  have d: "is_full_or_dense_with_no_pending_work ?B = is_full_or_dense_with_no_pending_work A"
    "GB_IS_HYPERSPARSE ?B = GB_IS_HYPERSPARSE A" "GB_IS_SPARSE ?B = GB_IS_SPARSE A"
    "GB_IS_BITMAP ?B = GB_IS_BITMAP A" "GB_IS_FULL ?B = GB_IS_FULL A"
    by (simp_all add: is_full_or_dense_with_no_pending_work_def GB_IS_defs GB_is_dense_def
        GB_NNZ_def GB_ZOMBIES_def GB_JUMBLED_def GB_PENDING_def nzombies_def n_pending_def)
  have f: "GB_convert_any_to_full ?B = (GB_convert_any_to_full A)\<lparr>sparsity := GxB_AUTO_SPARSITY\<rparr>"
    by (simp add: GB_convert_any_to_full_def GB_wait_def tuples_def)
  have 1: "fst (GB_conform mem A) = fst (GB_conform mem ?B)"
    unfolding e b d by (simp add: hyper_sparse_or_bitmap_sparsity GB_OK_def)
  have k: "sparsity (snd (?h A)) = sparsity A"
    "sparsity (GB_convert_any_to_full A) = sparsity A"
    by (simp_all add: hyper_sparse_or_bitmap_keeps_sparsity converters_keep_sparsity)
  have r: "X\<lparr>sparsity := sparsity A\<rparr> = X" if "sparsity X = sparsity A" for X :: "'a GrB_Matrix"
    using that by (cases X) simp
  have 2: "snd (GB_conform mem A) = (snd (GB_conform mem ?B))\<lparr>sparsity := sparsity A\<rparr>"
    unfolding e b d f
    by (simp add: hyper_sparse_or_bitmap_sparsity GB_OK_def GB_phbix_free_def r k)
  have 3: "fst (GB_conform mem A) \<noteq> BadInput"
    unfolding e
    using hyper_sparse_or_bitmap_info [of mem "GB_IS_HYPERSPARSE A" "GB_IS_SPARSE A"
        "GB_IS_BITMAP A" "GB_IS_FULL A" A]
    by (auto simp: GB_OK_def)
  have 4: "fst (GB_conform mem A) = GrB_SUCCESS" if "\<forall>c. mem c"
    unfolding e using that by (simp add: GB_OK_def hyper_sparse_or_bitmap_all_memory)
  show ?thesis
  proof (intro conjI impI)
    show "GB_conform mem A =
      (if is_full_or_dense_with_no_pending_work A then (GrB_SUCCESS, GB_convert_any_to_full A)
       else GB_OK (GB_hyper_sparse_or_bitmap mem (GB_IS_HYPERSPARSE A) (GB_IS_SPARSE A)
                     (GB_IS_BITMAP A) (GB_IS_FULL A) A) (\<lambda>A. (GrB_SUCCESS, A)))"
      by (rule e)
    show "fst (GB_conform mem A) = fst (GB_conform mem ?B)"
      by (rule 1)
    show "snd (GB_conform mem A) = (snd (GB_conform mem ?B))\<lparr>sparsity := sparsity A\<rparr>"
      by (rule 2)
    show "fst (GB_conform mem A) \<noteq> BadInput"
      by (rule 3)
    show "fst (GB_conform mem A) = GrB_SUCCESS" if "\<forall>c. mem c"
      using that by (rule 4)
  qed
qed

theorem GB_conform_default_witness:
  "GB_conform all_memory (small_matrix 0 Sparse)
     = (GrB_SUCCESS, (GB_wait (small_matrix 0 Sparse))\<lparr>structure := Bitmap\<rparr>)
   \<and> fst (GB_conform all_memory (small_matrix 0 Sparse))
     = fst (GB_conform all_memory ((small_matrix 0 Sparse)\<lparr>sparsity := GxB_AUTO_SPARSITY\<rparr>))
   \<and> fst (GB_conform all_memory (small_matrix 0 Sparse)) \<noteq> BadInput"
proof -
  have a: "sparsity (small_matrix 0 Sparse) < 1 \<or> 14 < sparsity (small_matrix 0 Sparse)"
    by (simp add: small_matrix_def)
  have v: "GB_conform all_memory (small_matrix 0 Sparse)
     = (GrB_SUCCESS, (GB_wait (small_matrix 0 Sparse))\<lparr>structure := Bitmap\<rparr>)"
    by (simp add: conform_eval small_matrix_def)
  note k = GB_conform_default [OF a, of all_memory]
  show ?thesis
  proof (intro conjI)
    show "GB_conform all_memory (small_matrix 0 Sparse)
       = (GrB_SUCCESS, (GB_wait (small_matrix 0 Sparse))\<lparr>structure := Bitmap\<rparr>)"
      by (rule v)
    show "fst (GB_conform all_memory (small_matrix 0 Sparse))
       = fst (GB_conform all_memory ((small_matrix 0 Sparse)\<lparr>sparsity := GxB_AUTO_SPARSITY\<rparr>))"
      by (rule k [THEN conjunct2, THEN conjunct1])
    show "fst (GB_conform all_memory (small_matrix 0 Sparse)) \<noteq> BadInput"
      by (rule k [THEN conjunct2, THEN conjunct2, THEN conjunct2, THEN conjunct1])
  qed
qed

section \<open>Properties of the vector slicer\<close>

declare GB_BINARY_SPLIT_SEARCH.simps [simp del]
declare slice_loop.simps [simp del]

lemma split_search_invariant:
  assumes "\<forall>q q'. L \<le> q \<and> q \<le> q' \<and> q' \<le> R \<longrightarrow> X q \<le> X q'"
    and "L \<le> pleft" and "pright \<le> R" and "pleft \<le> pright + 1"
    and "\<forall>q. L \<le> q \<and> q < pleft \<longrightarrow> X q < i"
    and "\<forall>q. pright < q \<and> q \<le> R \<longrightarrow> i \<le> X q"
  shows "pleft \<le> GB_BINARY_SPLIT_SEARCH i X pleft pright
    \<and> GB_BINARY_SPLIT_SEARCH i X pleft pright \<le> pright + 1
    \<and> (\<forall>q. L \<le> q \<and> q < GB_BINARY_SPLIT_SEARCH i X pleft pright \<longrightarrow> X q < i)
    \<and> (\<forall>q. GB_BINARY_SPLIT_SEARCH i X pleft pright \<le> q \<and> q \<le> R \<longrightarrow> i \<le> X q)"
  using assms
proof (induction i X pleft pright rule: GB_BINARY_SPLIT_SEARCH.induct)
  case (1 i X pleft pright)
  note sorted = "1.prems"(1)
  show ?case
  proof (cases "pleft \<le> pright")
    case False
    then have e: "GB_BINARY_SPLIT_SEARCH i X pleft pright = pleft"
      by (subst GB_BINARY_SPLIT_SEARCH.simps) simp
    have "pleft = pright + 1"
      using False "1.prems"(4) by simp
    then show ?thesis
      unfolding e using "1.prems"(5,6) by auto
  next
    case True
    define m where "m = (pleft + pright) div 2"
    have m: "pleft \<le> m" "m \<le> pright"
      using True by (simp_all add: m_def)
    show ?thesis
    proof (cases "X m < i")
      case lt: True
      have e: "GB_BINARY_SPLIT_SEARCH i X pleft pright = GB_BINARY_SPLIT_SEARCH i X (m + 1) pright"
        using True lt by (subst GB_BINARY_SPLIT_SEARCH.simps) (simp add: m_def Let_def)
      have below: "\<forall>q. L \<le> q \<and> q < m + 1 \<longrightarrow> X q < i"
      proof (intro allI impI)
        fix q
        assume q: "L \<le> q \<and> q < m + 1"
        then have "X q \<le> X m"
          using sorted m "1.prems"(3) by auto
        then show "X q < i"
          using lt by simp
      qed
      have "m + 1 \<le> GB_BINARY_SPLIT_SEARCH i X (m + 1) pright
        \<and> GB_BINARY_SPLIT_SEARCH i X (m + 1) pright \<le> pright + 1
        \<and> (\<forall>q. L \<le> q \<and> q < GB_BINARY_SPLIT_SEARCH i X (m + 1) pright \<longrightarrow> X q < i)
        \<and> (\<forall>q. GB_BINARY_SPLIT_SEARCH i X (m + 1) pright \<le> q \<and> q \<le> R \<longrightarrow> i \<le> X q)"
        using "1.IH"(1) [OF True m_def lt sorted _ "1.prems"(3) _ below "1.prems"(6)]
          m "1.prems"(2) by simp
      then show ?thesis
        unfolding e using m by auto
    next
      case ge: False
      have e: "GB_BINARY_SPLIT_SEARCH i X pleft pright = GB_BINARY_SPLIT_SEARCH i X pleft (m - 1)"
        using True ge by (subst GB_BINARY_SPLIT_SEARCH.simps) (simp add: m_def Let_def)
      have above: "\<forall>q. m - 1 < q \<and> q \<le> R \<longrightarrow> i \<le> X q"
      proof (intro allI impI)
        fix q
        assume q: "m - 1 < q \<and> q \<le> R"
        then have "X m \<le> X q"
          using sorted m "1.prems"(2) by auto
        then show "i \<le> X q"
          using ge by simp
      qed
      have "pleft \<le> GB_BINARY_SPLIT_SEARCH i X pleft (m - 1)
        \<and> GB_BINARY_SPLIT_SEARCH i X pleft (m - 1) \<le> m - 1 + 1
        \<and> (\<forall>q. L \<le> q \<and> q < GB_BINARY_SPLIT_SEARCH i X pleft (m - 1) \<longrightarrow> X q < i)
        \<and> (\<forall>q. GB_BINARY_SPLIT_SEARCH i X pleft (m - 1) \<le> q \<and> q \<le> R \<longrightarrow> i \<le> X q)"
        using "1.IH"(2) [OF True m_def ge sorted "1.prems"(2) _ _ "1.prems"(5) above]
          m "1.prems"(3) by simp
      then show ?thesis
        unfolding e using m by auto
    qed
  qed
qed

lemma legal_vector_sorted:
  assumes "legal_vector p_start p_end Xi n"
  shows "\<forall>q q'. p_start \<le> q \<and> q \<le> q' \<and> q' \<le> p_end - 1 \<longrightarrow> Xi q \<le> Xi q'"
proof (intro allI impI)
  fix q q'
  assume h: "p_start \<le> q \<and> q \<le> q' \<and> q' \<le> p_end - 1"
  show "Xi q \<le> Xi q'"
  proof (cases "q = q'")
    case True
    then show ?thesis by simp
  next
    case False
    then have "Xi q < Xi q'"
      using h assms unfolding legal_vector_def by (metis less_le zle_diff1_eq)
    then show ?thesis by simp
  qed
qed

text \<open>
  The split search on a legal vector: the position \<open>p\<close> it returns lies between
  \<open>p_start\<close> and \<open>p_end\<close>, the entries before \<open>p\<close> are below \<open>i\<close>, and the entries from \<open>p\<close>
  on are at least \<open>i\<close>.
\<close>

lemma split_search_legal:
  assumes "legal_vector p_start p_end Xi n"
  shows "p_start \<le> GB_BINARY_SPLIT_SEARCH i Xi p_start (p_end - 1)
    \<and> GB_BINARY_SPLIT_SEARCH i Xi p_start (p_end - 1) \<le> p_end
    \<and> (\<forall>q. p_start \<le> q \<and> q < GB_BINARY_SPLIT_SEARCH i Xi p_start (p_end - 1) \<longrightarrow> Xi q < i)
    \<and> (\<forall>q. GB_BINARY_SPLIT_SEARCH i Xi p_start (p_end - 1) \<le> q \<and> q < p_end \<longrightarrow> i \<le> Xi q)"
proof -
  have "p_start \<le> p_end"
    using assms by (simp add: legal_vector_def)
  then show ?thesis
    using split_search_invariant [of p_start "p_end - 1" Xi p_start "p_end - 1" i,
        OF legal_vector_sorted [OF assms]]
    by auto
qed

lemma slice_loop_unfold:
  fixes vlen :: int
  shows "slice_loop too_low too_high pA_start pA_end Ai pB_start pB_end Bi vlen n ileft iright i pA pB
    = (if ileft < iright
       then (if too_low ((if pA_end - pA_start = 0 then 0
                else pA_end - position_in_vector pA_start pA_end Ai vlen ((ileft + iright) div 2))
              + (if pB_end - pB_start = 0 then 0
                else pB_end - position_in_vector pB_start pB_end Bi vlen ((ileft + iright) div 2)))
             then slice_loop too_low too_high pA_start pA_end Ai pB_start pB_end Bi vlen
                    (Suc n) ileft ((ileft + iright) div 2) ((ileft + iright) div 2)
                    (position_in_vector pA_start pA_end Ai vlen ((ileft + iright) div 2))
                    (position_in_vector pB_start pB_end Bi vlen ((ileft + iright) div 2))
             else if too_high ((if pA_end - pA_start = 0 then 0
                else pA_end - position_in_vector pA_start pA_end Ai vlen ((ileft + iright) div 2))
              + (if pB_end - pB_start = 0 then 0
                else pB_end - position_in_vector pB_start pB_end Bi vlen ((ileft + iright) div 2)))
             then slice_loop too_low too_high pA_start pA_end Ai pB_start pB_end Bi vlen
                    (Suc n) ((ileft + iright) div 2 + 1) iright ((ileft + iright) div 2)
                    (position_in_vector pA_start pA_end Ai vlen ((ileft + iright) div 2))
                    (position_in_vector pB_start pB_end Bi vlen ((ileft + iright) div 2))
             else (Suc n, (ileft + iright) div 2,
                   position_in_vector pA_start pA_end Ai vlen ((ileft + iright) div 2),
                   position_in_vector pB_start pB_end Bi vlen ((ileft + iright) div 2)))
       else (n, i, pA, pB))"
  by (subst slice_loop.simps) (simp only: Let_def)

text \<open>
  A rule for the loop: an invariant \<open>I\<close> of the loop variables that both ways of going
  on keep, and a property \<open>R\<close> of the result that follows from the invariant where the
  loop is left, by the \<^verbatim>\<open>break\<close> or by its condition.
\<close>

lemma slice_loop_rule:
  fixes vlen :: int
  assumes "I ileft iright i pA pB"
    and "\<And>l r i' pA' pB' m. I l r i' pA' pB' \<Longrightarrow> l < r \<Longrightarrow> m = (l + r) div 2 \<Longrightarrow>
           too_low ((if pA_end - pA_start = 0 then 0
                     else pA_end - position_in_vector pA_start pA_end Ai vlen m)
                  + (if pB_end - pB_start = 0 then 0
                     else pB_end - position_in_vector pB_start pB_end Bi vlen m)) \<Longrightarrow>
           I l m m (position_in_vector pA_start pA_end Ai vlen m)
             (position_in_vector pB_start pB_end Bi vlen m)"
    and "\<And>l r i' pA' pB' m. I l r i' pA' pB' \<Longrightarrow> l < r \<Longrightarrow> m = (l + r) div 2 \<Longrightarrow>
           \<not> too_low ((if pA_end - pA_start = 0 then 0
                     else pA_end - position_in_vector pA_start pA_end Ai vlen m)
                  + (if pB_end - pB_start = 0 then 0
                     else pB_end - position_in_vector pB_start pB_end Bi vlen m)) \<Longrightarrow>
           too_high ((if pA_end - pA_start = 0 then 0
                     else pA_end - position_in_vector pA_start pA_end Ai vlen m)
                  + (if pB_end - pB_start = 0 then 0
                     else pB_end - position_in_vector pB_start pB_end Bi vlen m)) \<Longrightarrow>
           I (m + 1) r m (position_in_vector pA_start pA_end Ai vlen m)
             (position_in_vector pB_start pB_end Bi vlen m)"
    and "\<And>l r i' pA' pB' m. I l r i' pA' pB' \<Longrightarrow> l < r \<Longrightarrow> m = (l + r) div 2 \<Longrightarrow>
           \<not> too_low ((if pA_end - pA_start = 0 then 0
                     else pA_end - position_in_vector pA_start pA_end Ai vlen m)
                  + (if pB_end - pB_start = 0 then 0
                     else pB_end - position_in_vector pB_start pB_end Bi vlen m)) \<Longrightarrow>
           \<not> too_high ((if pA_end - pA_start = 0 then 0
                     else pA_end - position_in_vector pA_start pA_end Ai vlen m)
                  + (if pB_end - pB_start = 0 then 0
                     else pB_end - position_in_vector pB_start pB_end Bi vlen m)) \<Longrightarrow>
           R m (position_in_vector pA_start pA_end Ai vlen m)
             (position_in_vector pB_start pB_end Bi vlen m)"
    and "\<And>l r i' pA' pB'. I l r i' pA' pB' \<Longrightarrow> \<not> l < r \<Longrightarrow> R i' pA' pB'"
  shows "case slice_loop too_low too_high pA_start pA_end Ai pB_start pB_end Bi vlen
                n ileft iright i pA pB of
           (n', i', pA', pB') \<Rightarrow> R i' pA' pB'"
  using assms
proof (induction too_low too_high pA_start pA_end Ai pB_start pB_end Bi vlen
    n ileft iright i pA pB rule: slice_loop.induct)
  case (1 too_low too_high pA_start pA_end Ai pB_start pB_end Bi vlen n ileft iright i pA pB)
  define m where "m = (ileft + iright) div 2"
  define qA where "qA = position_in_vector pA_start pA_end Ai vlen m"
  define qB where "qB = position_in_vector pB_start pB_end Bi vlen m"
  define work where "work = (if pA_end - pA_start = 0 then 0 else pA_end - qA)
      + (if pB_end - pB_start = 0 then 0 else pB_end - qB)"
  note defs = m_def qA_def qB_def work_def
  have step: "slice_loop too_low too_high pA_start pA_end Ai pB_start pB_end Bi vlen
      n ileft iright i pA pB
    = (if ileft < iright
       then (if too_low work
             then slice_loop too_low too_high pA_start pA_end Ai pB_start pB_end Bi vlen
                    (Suc n) ileft m m qA qB
             else if too_high work
             then slice_loop too_low too_high pA_start pA_end Ai pB_start pB_end Bi vlen
                    (Suc n) (m + 1) iright m qA qB
             else (Suc n, m, qA, qB))
       else (n, i, pA, pB))"
    unfolding defs by (rule slice_loop_unfold)
  show ?case
  proof (cases "ileft < iright")
    case False
    then have "slice_loop too_low too_high pA_start pA_end Ai pB_start pB_end Bi vlen
        n ileft iright i pA pB = (n, i, pA, pB)"
      by (simp only: step if_False)
    then show ?thesis
      using "1.prems"(5) [OF "1.prems"(1) False] by simp
  next
    case True
    show ?thesis
    proof (cases "too_low work")
      case low: True
      have e: "slice_loop too_low too_high pA_start pA_end Ai pB_start pB_end Bi vlen
          n ileft iright i pA pB
        = slice_loop too_low too_high pA_start pA_end Ai pB_start pB_end Bi vlen
          (Suc n) ileft m m qA qB"
        by (simp only: step True low if_True)
      have inv: "I ileft m m qA qB"
        using "1.prems"(2) [OF "1.prems"(1) True m_def] low unfolding defs by simp
      show ?thesis
        unfolding e
        using "1.IH"(1) [OF True m_def refl refl qA_def qB_def _ _ inv "1.prems"(2,3,4,5)]
          low
        unfolding defs by simp
    next
      case nlow: False
      show ?thesis
      proof (cases "too_high work")
        case high: True
        have e: "slice_loop too_low too_high pA_start pA_end Ai pB_start pB_end Bi vlen
            n ileft iright i pA pB
          = slice_loop too_low too_high pA_start pA_end Ai pB_start pB_end Bi vlen
            (Suc n) (m + 1) iright m qA qB"
          by (simp only: step True nlow high if_True if_False)
        have inv: "I (m + 1) iright m qA qB"
          using "1.prems"(3) [OF "1.prems"(1) True m_def] nlow high unfolding defs by simp
        show ?thesis
          unfolding e
          using "1.IH"(2) [OF True m_def refl refl qA_def qB_def _ _ _ inv "1.prems"(2,3,4,5)]
            nlow high
          unfolding defs by simp
      next
        case nhigh: False
        have e: "slice_loop too_low too_high pA_start pA_end Ai pB_start pB_end Bi vlen
            n ileft iright i pA pB = (Suc n, m, qA, qB)"
          by (simp only: step True nlow nhigh if_True if_False)
        show ?thesis
          unfolding e
          using "1.prems"(4) [OF "1.prems"(1) True m_def] nlow nhigh unfolding defs by simp
      qed
    qed
  qed
qed

lemma ascending_gap:
  fixes Xi :: "int \<Rightarrow> int" and p q :: int
  assumes "\<forall>p q. p_start \<le> p \<and> p < q \<and> q < p_end \<longrightarrow> Xi p < Xi q"
    and "p_start \<le> p" and "q < p_end" and "p \<le> q"
  shows "Xi p + (q - p) \<le> Xi q"
  using assms(3,4)
proof (induction "nat (q - p)" arbitrary: q)
  case 0
  then have "q = p" by simp
  then show ?case by simp
next
  case (Suc k)
  then have k: "k = nat (q - 1 - p)" "p \<le> q - 1" "q - 1 < p_end"
    by simp_all
  have "Xi p + (q - 1 - p) \<le> Xi (q - 1)"
    using Suc.hyps(1) [OF k(1) k(3) k(2)] .
  moreover have "Xi (q - 1) < Xi q"
    using assms(1,2) k(2) Suc.prems(1) by simp
  ultimately show ?case by simp
qed

text \<open>A dense legal vector holds the row index \<open>k\<close> at position \<open>p_start + k\<close>.\<close>

lemma dense_vector_index:
  fixes vlen :: int
  assumes "legal_vector p_start p_end Xi vlen" and "p_end - p_start = vlen"
    and "0 \<le> k" and "k < vlen"
  shows "Xi (p_start + k) = k"
proof -
  have asc: "\<forall>p q. p_start \<le> p \<and> p < q \<and> q < p_end \<longrightarrow> Xi p < Xi q"
    and rng: "\<forall>p. p_start \<le> p \<and> p < p_end \<longrightarrow> 0 \<le> Xi p \<and> Xi p < vlen"
    using assms(1) by (simp_all add: legal_vector_def)
  have "Xi p_start + (p_start + k - p_start) \<le> Xi (p_start + k)"
    using assms(2,3,4) by (intro ascending_gap [OF asc]) simp_all
  moreover have "0 \<le> Xi p_start"
    using rng assms(2,3,4) by simp
  ultimately have lower: "k \<le> Xi (p_start + k)"
    by simp
  have "Xi (p_start + k) + (p_end - 1 - (p_start + k)) \<le> Xi (p_end - 1)"
    using assms(2,3,4) by (intro ascending_gap [OF asc]) simp_all
  moreover have "Xi (p_end - 1) < vlen"
    using rng assms(2,3,4) by simp
  ultimately have "Xi (p_start + k) \<le> k"
    using assms(2) by simp
  then show ?thesis
    using lower by simp
qed

text \<open>
  The position the code computes for an index \<open>i\<close> of a legal vector satisfies the
  assertions of the code.
\<close>

lemma position_boundary_ok:
  fixes vlen :: int
  assumes "legal_vector p_start p_end Xi vlen" and "0 \<le> i" and "i < vlen \<or> i = 0"
  shows "boundary_ok p_start p_end Xi i (position_in_vector p_start p_end Xi vlen i)"
proof (cases "p_end - p_start = 0")
  case True
  then show ?thesis
    by (simp add: boundary_ok_def position_in_vector_def)
next
  case ne: False
  have l: "0 \<le> p_start" "p_start < p_end"
    using assms(1) ne by (simp_all add: legal_vector_def)
  have "0 \<le> Xi p_start \<and> Xi p_start < vlen"
    using assms(1) l by (simp add: legal_vector_def)
  then have i: "i < vlen"
    using assms(3) by auto
  show ?thesis
  proof (cases "p_end - p_start = vlen")
    case True
    have p: "position_in_vector p_start p_end Xi vlen i = p_start + i"
      using ne True by (simp add: position_in_vector_def Let_def)
    have at: "Xi (p_start + i) = i"
      using dense_vector_index [OF assms(1) True assms(2) i] .
    have before: "Xi (p_start + i - 1) < i" if "0 < i"
      using dense_vector_index [OF assms(1) True, of "i - 1"] that i
      by (simp add: algebra_simps)
    show ?thesis
      unfolding p boundary_ok_def using l assms(2) i True at before by auto
  next
    case False
    have p: "position_in_vector p_start p_end Xi vlen i
        = GB_BINARY_SPLIT_SEARCH i Xi p_start (p_end - 1)"
      using ne False by (simp add: position_in_vector_def Let_def)
    show ?thesis
      unfolding p boundary_ok_def using split_search_legal [OF assms(1), of i] l ne
      by auto
  qed
qed

lemma initial_boundary_ok:
  fixes vlen :: int
  assumes "legal_vector p_start p_end Xi vlen"
  shows "boundary_ok p_start p_end Xi 0 (if p_end - p_start = 0 then - 1 else p_start)"
  using assms by (auto simp: boundary_ok_def legal_vector_def)

text \<open>
  Claim C4. For every legal input (vectors with strictly ascending row indices between
  0 and \<open>vlen - 1\<close>; empty, dense or sparse, in any combination) and every outcome of the
  two comparisons of the loop, the values \<^verbatim>\<open>GB_slice_vector\<close> returns satisfy
  \<open>0 \<le> i \<le> vlen\<close> and, for each of the three vectors: the position is \<open>-1\<close> exactly when
  the vector is empty, and otherwise \<open>p_start \<le> p \<le> p_end\<close>, \<open>Xi [p - 1] < i\<close> when
  \<open>p_start < p < p_end\<close>, and \<open>i \<le> Xi [p]\<close> when \<open>p_start \<le> p < p_end\<close>.
\<close>

theorem GB_slice_vector_boundaries:
  fixes vlen :: int
  assumes "legal_vector pM_start pM_end Mi vlen"
    and "legal_vector pA_start pA_end Ai vlen"
    and "legal_vector pB_start pB_end Bi vlen"
  shows "(case slice_vector too_low too_high pM_start pM_end Mi pA_start pA_end Ai
                 pB_start pB_end Bi vlen of
            (i, pM, pA, pB) \<Rightarrow>
              0 \<le> i \<and> i \<le> vlen
              \<and> boundary_ok pM_start pM_end Mi i pM
              \<and> boundary_ok pA_start pA_end Ai i pA
              \<and> boundary_ok pB_start pB_end Bi i pB)
    \<and> (case GB_slice_vector pM_start pM_end Mi pA_start pA_end Ai
                 pB_start pB_end Bi vlen target_work of
            (i, pM, pA, pB) \<Rightarrow>
              0 \<le> i \<and> i \<le> vlen
              \<and> boundary_ok pM_start pM_end Mi i pM
              \<and> boundary_ok pA_start pA_end Ai i pA
              \<and> boundary_ok pB_start pB_end Bi i pB)"
proof -
  define I where "I = (\<lambda>(l :: int) (r :: int) i pA pB.
      0 \<le> l \<and> r \<le> vlen - 1 \<and> 0 \<le> i \<and> (i < vlen \<or> i = 0)
      \<and> boundary_ok pA_start pA_end Ai i pA \<and> boundary_ok pB_start pB_end Bi i pB)"
  define R where "R = (\<lambda>i pA pB.
      0 \<le> i \<and> (i < vlen \<or> i = 0)
      \<and> boundary_ok pA_start pA_end Ai i pA \<and> boundary_ok pB_start pB_end Bi i pB)"
  have v: "0 \<le> vlen"
    using assms(1) by (simp add: legal_vector_def)
  have mid: "I l r i' pA' pB' \<Longrightarrow> l < r \<Longrightarrow> m = (l + r) div 2 \<Longrightarrow>
      0 \<le> m \<and> m < vlen \<and> l \<le> m \<and> m < r
      \<and> boundary_ok pA_start pA_end Ai m (position_in_vector pA_start pA_end Ai vlen m)
      \<and> boundary_ok pB_start pB_end Bi m (position_in_vector pB_start pB_end Bi vlen m)"
    for l r i' pA' pB' m
  proof -
    assume a: "I l r i' pA' pB'" "l < r" "m = (l + r) div 2"
    then have lr: "0 \<le> l" "r \<le> vlen - 1"
      by (simp_all add: I_def)
    have b: "0 \<le> m \<and> m < vlen \<and> l \<le> m \<and> m < r"
      using lr a(2,3) by presburger
    then have c: "0 \<le> m" "m < vlen \<or> m = 0"
      by simp_all
    show ?thesis
      using b position_boundary_ok [OF assms(2) c] position_boundary_ok [OF assms(3) c]
      by simp
  qed
  have loop: "case slice_loop lo hi pA_start pA_end Ai pB_start pB_end Bi vlen
                0 0 (vlen - 1) 0 (if pA_end - pA_start = 0 then - 1 else pA_start)
                (if pB_end - pB_start = 0 then - 1 else pB_start) of
           (n', i', pA', pB') \<Rightarrow> R i' pA' pB'" for lo hi
  proof (rule slice_loop_rule [where I = I])
    show "I 0 (vlen - 1) 0 (if pA_end - pA_start = 0 then - 1 else pA_start)
        (if pB_end - pB_start = 0 then - 1 else pB_start)"
      unfolding I_def
      using initial_boundary_ok [OF assms(2)] initial_boundary_ok [OF assms(3)] by simp
  next
    fix l r i' pA' pB' m
    assume a: "I l r i' pA' pB'" "l < r" "m = (l + r) div 2"
    show "I l m m (position_in_vector pA_start pA_end Ai vlen m)
        (position_in_vector pB_start pB_end Bi vlen m)"
      using mid [OF a] a(1) by (simp add: I_def)
    show "I (m + 1) r m (position_in_vector pA_start pA_end Ai vlen m)
        (position_in_vector pB_start pB_end Bi vlen m)"
      using mid [OF a] a(1) by (simp add: I_def)
    show "R m (position_in_vector pA_start pA_end Ai vlen m)
        (position_in_vector pB_start pB_end Bi vlen m)"
      using mid [OF a] by (simp add: R_def)
  next
    fix l r i' pA' pB'
    assume "I l r i' pA' pB'"
    then show "R i' pA' pB'"
      by (simp add: I_def R_def)
  qed
  have main: "case slice_vector lo hi pM_start pM_end Mi pA_start pA_end Ai
                 pB_start pB_end Bi vlen of
            (i, pM, pA, pB) \<Rightarrow>
              0 \<le> i \<and> i \<le> vlen
              \<and> boundary_ok pM_start pM_end Mi i pM
              \<and> boundary_ok pA_start pA_end Ai i pA
              \<and> boundary_ok pB_start pB_end Bi i pB" for lo hi
  proof -
    obtain n i pA pB where r: "slice_loop lo hi pA_start pA_end Ai pB_start pB_end Bi vlen
                0 0 (vlen - 1) 0 (if pA_end - pA_start = 0 then - 1 else pA_start)
                (if pB_end - pB_start = 0 then - 1 else pB_start) = (n, i, pA, pB)"
      by (metis prod_cases4)
    have R: "R i pA pB"
      using loop [of lo hi] unfolding r by simp
    then have i: "0 \<le> i" "i < vlen \<or> i = 0"
      by (simp_all add: R_def)
    have "boundary_ok pM_start pM_end Mi i (position_in_vector pM_start pM_end Mi vlen i)"
      using position_boundary_ok [OF assms(1) i] .
    moreover have "slice_vector lo hi pM_start pM_end Mi pA_start pA_end Ai
        pB_start pB_end Bi vlen = (i, position_in_vector pM_start pM_end Mi vlen i, pA, pB)"
      by (simp only: slice_vector_def Let_def r prod.case)
    moreover have "i \<le> vlen"
      using i v by auto
    ultimately show ?thesis
      using R i(1) by (simp add: R_def)
  qed
  show ?thesis
    using main [of too_low too_high]
      main [of "work_too_low target_work" "work_too_high target_work"]
    by (simp add: GB_slice_vector_def)
qed

text \<open>
  An input with a sparse mask (rows 0, 3, 6), a sparse \<open>A\<close> (rows 1, 3, 5, 7) and a dense
  \<open>B\<close> of length 10, sliced for a target of 4: the split is at row 7.
\<close>

theorem GB_slice_vector_boundaries_witness:
  "GB_slice_vector 0 3 (\<lambda>p. 3 * p) 0 4 (\<lambda>p. 2 * p + 1) 4 14 (\<lambda>p. p - 4) 10 4 = (7, 3, 3, 11)
   \<and> boundary_ok 0 3 (\<lambda>p. 3 * p) 7 3
   \<and> boundary_ok 0 4 (\<lambda>p. 2 * p + 1) 7 3
   \<and> boundary_ok 4 14 (\<lambda>p. p - 4) 7 11"
proof -
  have M: "legal_vector 0 3 (\<lambda>p. 3 * p) 10"
    by (simp add: legal_vector_def)
  have A: "legal_vector 0 4 (\<lambda>p. 2 * p + 1) 10"
    by (simp add: legal_vector_def)
  have B: "legal_vector 4 14 (\<lambda>p. p - 4) 10"
    by (simp add: legal_vector_def)
  have v: "GB_slice_vector 0 3 (\<lambda>p. 3 * p) 0 4 (\<lambda>p. 2 * p + 1) 4 14 (\<lambda>p. p - 4) 10 4
      = (7, 3, 3, 11)"
    by (simp add: GB_slice_vector_def slice_vector_def slice_loop.simps position_in_vector_def
        GB_BINARY_SPLIT_SEARCH.simps work_too_low_def work_too_high_def Let_def)
  show ?thesis
    using GB_slice_vector_boundaries [OF M A B, of "\<lambda>w. False" "\<lambda>w. False" 4]
    unfolding v by simp
qed

text \<open>
  Each iteration halves the interval from \<open>ileft\<close> to \<open>iright\<close>: an interval with
  \<open>iright - ileft < 2 ^ k\<close> is left after at most \<open>k\<close> iterations.
\<close>

lemma slice_loop_iterations:
  fixes vlen :: int
  shows "iright - ileft < 2 ^ k \<Longrightarrow>
   fst (slice_loop too_low too_high pA_start pA_end Ai pB_start pB_end Bi vlen
          n ileft iright i pA pB) \<le> n + k"
proof (induction too_low too_high pA_start pA_end Ai pB_start pB_end Bi vlen
    n ileft iright i pA pB arbitrary: k rule: slice_loop.induct)
  case (1 too_low too_high pA_start pA_end Ai pB_start pB_end Bi vlen n ileft iright i pA pB)
  define m where "m = (ileft + iright) div 2"
  define qA where "qA = position_in_vector pA_start pA_end Ai vlen m"
  define qB where "qB = position_in_vector pB_start pB_end Bi vlen m"
  define work where "work = (if pA_end - pA_start = 0 then 0 else pA_end - qA)
      + (if pB_end - pB_start = 0 then 0 else pB_end - qB)"
  note defs = m_def qA_def qB_def work_def
  have step: "slice_loop too_low too_high pA_start pA_end Ai pB_start pB_end Bi vlen
      n ileft iright i pA pB
    = (if ileft < iright
       then (if too_low work
             then slice_loop too_low too_high pA_start pA_end Ai pB_start pB_end Bi vlen
                    (Suc n) ileft m m qA qB
             else if too_high work
             then slice_loop too_low too_high pA_start pA_end Ai pB_start pB_end Bi vlen
                    (Suc n) (m + 1) iright m qA qB
             else (Suc n, m, qA, qB))
       else (n, i, pA, pB))"
    unfolding defs by (rule slice_loop_unfold)
  show ?case
  proof (cases "ileft < iright")
    case False
    then show ?thesis
      by (simp only: step if_False) simp
  next
    case True
    have "k \<noteq> 0"
      using True "1.prems" by (cases k) auto
    then obtain k' where k: "k = Suc k'"
      by (cases k) auto
    have "iright - ileft < 2 * 2 ^ k'"
      using "1.prems" by (simp add: k)
    then have half: "m - ileft < 2 ^ k'" "iright - (m + 1) < 2 ^ k'"
      using True unfolding m_def by linarith+
    show ?thesis
    proof (cases "too_low work")
      case low: True
      have "fst (slice_loop too_low too_high pA_start pA_end Ai pB_start pB_end Bi vlen
              (Suc n) ileft m m qA qB) \<le> Suc n + k'"
        using "1.IH"(1) [OF True m_def refl refl qA_def qB_def _ _ half(1)] low
        unfolding defs by simp
      then show ?thesis
        by (simp only: step True low if_True) (simp add: k)
    next
      case nlow: False
      show ?thesis
      proof (cases "too_high work")
        case high: True
        have "fst (slice_loop too_low too_high pA_start pA_end Ai pB_start pB_end Bi vlen
                (Suc n) (m + 1) iright m qA qB) \<le> Suc n + k'"
          using "1.IH"(2) [OF True m_def refl refl qA_def qB_def _ _ _ half(2)] nlow high
          unfolding defs by simp
        then show ?thesis
          by (simp only: step True nlow high if_True if_False) (simp add: k)
      next
        case False
        then show ?thesis
          by (simp only: step True nlow if_True if_False) (simp add: k)
      qed
    qed
  qed
qed

text \<open>
  The positions in a sparse legal vector, as a function of the row index \<open>i\<close>: they
  grow with \<open>i\<close>, by at most one from \<open>i\<close> to \<open>i + 1\<close>, from \<open>p_start\<close> at row 0 to at least
  \<open>p_end - 1\<close> at the last row.
\<close>

lemma sparse_position:
  fixes vlen :: int
  assumes "legal_vector p_start p_end Xi vlen"
    and "p_end - p_start \<noteq> 0" and "p_end - p_start \<noteq> vlen"
  shows "p_start \<le> position_in_vector p_start p_end Xi vlen i
    \<and> position_in_vector p_start p_end Xi vlen i \<le> p_end
    \<and> (\<forall>q. p_start \<le> q \<and> q < position_in_vector p_start p_end Xi vlen i \<longrightarrow> Xi q < i)
    \<and> (\<forall>q. position_in_vector p_start p_end Xi vlen i \<le> q \<and> q < p_end \<longrightarrow> i \<le> Xi q)"
proof -
  have "position_in_vector p_start p_end Xi vlen i
      = GB_BINARY_SPLIT_SEARCH i Xi p_start (p_end - 1)"
    using assms(2,3) by (simp add: position_in_vector_def Let_def)
  then show ?thesis
    using split_search_legal [OF assms(1), of i] by simp
qed

lemma sparse_position_mono:
  fixes vlen :: int
  assumes "legal_vector p_start p_end Xi vlen"
    and "p_end - p_start \<noteq> 0" and "p_end - p_start \<noteq> vlen" and "i \<le> j"
  shows "position_in_vector p_start p_end Xi vlen i \<le> position_in_vector p_start p_end Xi vlen j"
proof (rule ccontr)
  let ?P = "position_in_vector p_start p_end Xi vlen"
  assume "\<not> ?P i \<le> ?P j"
  then have lt: "?P j < ?P i"
    by simp
  note pi = sparse_position [OF assms(1,2,3), of i]
  note pj = sparse_position [OF assms(1,2,3), of j]
  have "Xi (?P j) < i"
    using pi pj lt by simp
  moreover have "j \<le> Xi (?P j)"
    using pi pj lt by simp
  ultimately show False
    using assms(4) by simp
qed

lemma sparse_position_step:
  fixes vlen :: int
  assumes "legal_vector p_start p_end Xi vlen"
    and "p_end - p_start \<noteq> 0" and "p_end - p_start \<noteq> vlen"
  shows "position_in_vector p_start p_end Xi vlen (i + 1)
    \<le> position_in_vector p_start p_end Xi vlen i + 1"
proof (rule ccontr)
  let ?P = "position_in_vector p_start p_end Xi vlen"
  assume "\<not> ?P (i + 1) \<le> ?P i + 1"
  then have lt: "?P i + 1 < ?P (i + 1)"
    by simp
  note pi = sparse_position [OF assms(1,2,3), of i]
  note pj = sparse_position [OF assms(1,2,3), of "i + 1"]
  have r: "p_start \<le> ?P i" "?P i + 1 < p_end"
    using pi pj lt by simp_all
  have "Xi (?P i) < i + 1" "Xi (?P i + 1) < i + 1"
    using pj r lt by simp_all
  moreover have "i \<le> Xi (?P i)" "i \<le> Xi (?P i + 1)"
    using pi r by simp_all
  moreover have "Xi (?P i) < Xi (?P i + 1)"
    using assms(1) r by (simp add: legal_vector_def)
  ultimately show False
    by simp
qed

lemma sparse_position_zero:
  fixes vlen :: int
  assumes "legal_vector p_start p_end Xi vlen"
    and "p_end - p_start \<noteq> 0" and "p_end - p_start \<noteq> vlen"
  shows "position_in_vector p_start p_end Xi vlen 0 = p_start"
proof (rule ccontr)
  let ?P = "position_in_vector p_start p_end Xi vlen"
  assume n: "?P 0 \<noteq> p_start"
  note p0 = sparse_position [OF assms(1,2,3), of 0]
  have lt: "p_start < ?P 0"
    using n p0 by simp
  then have "Xi p_start < 0"
    using p0 by simp
  moreover have "0 \<le> Xi p_start"
    using assms(1) lt p0 by (simp add: legal_vector_def)
  ultimately show False
    by simp
qed

lemma sparse_position_last:
  fixes vlen :: int
  assumes "legal_vector p_start p_end Xi vlen"
    and "p_end - p_start \<noteq> 0" and "p_end - p_start \<noteq> vlen" and "vlen - 1 \<le> i"
  shows "p_end - 1 \<le> position_in_vector p_start p_end Xi vlen i"
proof (rule ccontr)
  let ?P = "position_in_vector p_start p_end Xi vlen"
  assume "\<not> p_end - 1 \<le> ?P i"
  then have lt: "?P i + 1 < p_end"
    by simp
  note pi = sparse_position [OF assms(1,2,3), of i]
  have "i \<le> Xi (?P i)"
    using pi lt by simp
  moreover have "Xi (?P i) < Xi (?P i + 1)"
    using assms(1) pi lt by (simp add: legal_vector_def)
  moreover have "Xi (?P i + 1) < vlen"
    using assms(1) pi lt by (simp add: legal_vector_def)
  ultimately show False
    using assms(4) by simp
qed

lemma work_comparisons_50000:
  "work_too_low 50000 w \<longleftrightarrow> w < 49995" "work_too_high 50000 w \<longleftrightarrow> 50005 < w"
  by (simp_all add: work_too_low_def work_too_high_def)

text \<open>
  Claim C5. For two legal vectors of length \<open>10^6\<close> with \<open>10^5\<close> entries each and the target
  50000, \<^verbatim>\<open>GB_slice_vector\<close> returns a split whose work
  \<open>(pA_end - pA) + (pB_end - pB)\<close> lies between 49995 and 50005, and its loop runs at most
  20 times. The two comparisons are the exact ones: \<open>0.9999 * 50000\<close> and
  \<open>1.0001 * 50000\<close> are the integers 49995 and 50005, which is also what the products
  are in double arithmetic, and the work is an integer far below \<open>2^53\<close>.
\<close>

theorem GB_slice_vector_balance:
  fixes vlen :: int
  assumes "vlen = 10 ^ 6"
    and "pA_end - pA_start = 10 ^ 5" and "pB_end - pB_start = 10 ^ 5"
    and "legal_vector pA_start pA_end Ai vlen" and "legal_vector pB_start pB_end Bi vlen"
  shows "(case GB_slice_vector pM_start pM_end Mi pA_start pA_end Ai pB_start pB_end Bi
                 vlen 50000 of
            (i, pM, pA, pB) \<Rightarrow>
              49995 \<le> (pA_end - pA) + (pB_end - pB) \<and> (pA_end - pA) + (pB_end - pB) \<le> 50005)
    \<and> slice_iterations pA_start pA_end Ai pB_start pB_end Bi vlen 50000 \<le> 20"
proof -
  let ?PA = "position_in_vector pA_start pA_end Ai vlen"
  let ?PB = "position_in_vector pB_start pB_end Bi vlen"
  define w where "w = (\<lambda>m. (pA_end - ?PA m) + (pB_end - ?PB m))"
  define good where "good = (\<lambda>m. 49995 \<le> w m \<and> w m \<le> 50005)"
  have sa: "pA_end - pA_start \<noteq> 0" "pA_end - pA_start \<noteq> vlen"
    and sb: "pB_end - pB_start \<noteq> 0" "pB_end - pB_start \<noteq> vlen"
    using assms(1,2,3) by simp_all
  have mono: "w j \<le> w i" if "i \<le> j" for i j
    using sparse_position_mono [OF assms(4) sa that] sparse_position_mono [OF assms(5) sb that]
    by (simp add: w_def)
  have step: "w i \<le> w (i + 1) + 2" for i
    using sparse_position_step [OF assms(4) sa, of i] sparse_position_step [OF assms(5) sb, of i]
    by (simp add: w_def)
  have w0: "w 0 = 200000"
    using sparse_position_zero [OF assms(4) sa] sparse_position_zero [OF assms(5) sb] assms(2,3)
    by (simp add: w_def)
  have wl: "w 999999 \<le> 2"
    using sparse_position_last [OF assms(4) sa, of 999999]
      sparse_position_last [OF assms(5) sb, of 999999] assms(1)
    by (simp add: w_def)
  have ex: "\<exists>g. 0 \<le> g \<and> g + 1 \<le> 999999 \<and> good g \<and> good (g + 1)"
  proof -
    define P where "P = (\<lambda>k. w (int k) \<le> 50005)"
    define k where "k = (LEAST k. P k)"
    have "P 999999"
      using wl by (simp add: P_def)
    then have Pk: "P k"
      unfolding k_def by (rule LeastI)
    have P0: "\<not> P 0"
      using w0 by (simp add: P_def)
    have k0: "k \<noteq> 0"
    proof
      assume "k = 0"
      then show False
        using Pk P0 by simp
    qed
    from k0 have "\<not> P (k - 1)"
      unfolding k_def using not_less_Least [of "k - 1" P] by (simp add: k_def)
    then have a: "50006 \<le> w (int k - 1)"
      using k0 by (simp add: P_def of_nat_diff)
    have b: "w (int k - 1) \<le> w (int k) + 2"
      using step [of "int k - 1"] by simp
    have c: "w (int k) \<le> w (int k + 1) + 2"
      using step [of "int k"] .
    have d: "w (int k + 1) \<le> w (int k)"
      by (rule mono) simp
    have e: "w (int k) \<le> 50005"
      using Pk by (simp add: P_def)
    have "int k + 1 \<le> 999999"
    proof (rule ccontr)
      assume "\<not> int k + 1 \<le> 999999"
      then have "w (int k) \<le> w 999999"
        by (intro mono) simp
      then show False
        using wl a b by simp
    qed
    then show ?thesis
      using a b c d e by (intro exI [of _ "int k"]) (simp add: good_def)
  qed
  define I where "I = (\<lambda>(l :: int) (r :: int) (i :: int) (pA :: int) (pB :: int).
      \<exists>g. l \<le> g \<and> g + 1 \<le> r \<and> good g \<and> good (g + 1))"
  define R where "R = (\<lambda>i pA pB. pA = ?PA i \<and> pB = ?PB i \<and> good i)"
  have work: "(if pA_end - pA_start = 0 then 0 else pA_end - ?PA m)
      + (if pB_end - pB_start = 0 then 0 else pB_end - ?PB m) = w m" for m
    using sa sb by (simp add: w_def)
  have loop: "case slice_loop (work_too_low 50000) (work_too_high 50000)
                pA_start pA_end Ai pB_start pB_end Bi vlen
                0 0 (vlen - 1) 0 (if pA_end - pA_start = 0 then - 1 else pA_start)
                (if pB_end - pB_start = 0 then - 1 else pB_start) of
           (n', i', pA', pB') \<Rightarrow> R i' pA' pB'"
  proof (rule slice_loop_rule [where I = I])
    show "I 0 (vlen - 1) 0 (if pA_end - pA_start = 0 then - 1 else pA_start)
        (if pB_end - pB_start = 0 then - 1 else pB_start)"
      using ex assms(1) by (simp add: I_def)
  next
    fix l r i' pA' pB' m
    assume a: "I l r i' pA' pB'" "l < r" "m = (l + r) div 2"
    then obtain g where g: "l \<le> g" "g + 1 \<le> r" "good g" "good (g + 1)"
      unfolding I_def by blast
    {
      assume "work_too_low 50000 ((if pA_end - pA_start = 0 then 0 else pA_end - ?PA m)
          + (if pB_end - pB_start = 0 then 0 else pB_end - ?PB m))"
      then have low: "w m < 49995"
        by (simp only: work work_comparisons_50000)
      have "g + 1 < m"
      proof (rule ccontr)
        assume "\<not> g + 1 < m"
        then have "w (g + 1) \<le> w m"
          by (intro mono) simp
        then show False
          using low g(4) by (simp add: good_def)
      qed
      then show "I l m m (?PA m) (?PB m)"
        unfolding I_def using g by (intro exI [of _ g]) simp
    }
    {
      assume "work_too_high 50000 ((if pA_end - pA_start = 0 then 0 else pA_end - ?PA m)
          + (if pB_end - pB_start = 0 then 0 else pB_end - ?PB m))"
      then have high: "50005 < w m"
        by (simp only: work work_comparisons_50000)
      have "m < g"
      proof (rule ccontr)
        assume "\<not> m < g"
        then have "w m \<le> w g"
          by (intro mono) simp
        then show False
          using high g(3) by (simp add: good_def)
      qed
      then show "I (m + 1) r m (?PA m) (?PB m)"
        unfolding I_def using g by (intro exI [of _ g]) simp
    }
    {
      assume "\<not> work_too_low 50000 ((if pA_end - pA_start = 0 then 0 else pA_end - ?PA m)
          + (if pB_end - pB_start = 0 then 0 else pB_end - ?PB m))"
        and "\<not> work_too_high 50000 ((if pA_end - pA_start = 0 then 0 else pA_end - ?PA m)
          + (if pB_end - pB_start = 0 then 0 else pB_end - ?PB m))"
      then have "\<not> w m < 49995" "\<not> 50005 < w m"
        by (simp_all only: work work_comparisons_50000 not_False_eq_True)
      then show "R m (?PA m) (?PB m)"
        by (simp add: R_def good_def)
    }
  next
    fix l r i' pA' pB'
    assume "I l r i' pA' pB'" "\<not> l < r"
    then have False
      unfolding I_def by auto
    then show "R i' pA' pB'" ..
  qed
  obtain n i pA pB where r: "slice_loop (work_too_low 50000) (work_too_high 50000)
                pA_start pA_end Ai pB_start pB_end Bi vlen
                0 0 (vlen - 1) 0 (if pA_end - pA_start = 0 then - 1 else pA_start)
                (if pB_end - pB_start = 0 then - 1 else pB_start) = (n, i, pA, pB)"
    by (metis prod_cases4)
  have "R i pA pB"
    using loop unfolding r by simp
  then have bal: "49995 \<le> (pA_end - pA) + (pB_end - pB) \<and> (pA_end - pA) + (pB_end - pB) \<le> 50005"
    by (simp add: R_def good_def w_def)
  have v: "GB_slice_vector pM_start pM_end Mi pA_start pA_end Ai pB_start pB_end Bi vlen 50000
      = (i, position_in_vector pM_start pM_end Mi vlen i, pA, pB)"
    by (simp only: GB_slice_vector_def slice_vector_def Let_def r prod.case)
  have "vlen - 1 - 0 < 2 ^ 20"
    using assms(1) by simp
  then have "fst (slice_loop (work_too_low 50000) (work_too_high 50000)
                pA_start pA_end Ai pB_start pB_end Bi vlen
                0 0 (vlen - 1) 0 (if pA_end - pA_start = 0 then - 1 else pA_start)
                (if pB_end - pB_start = 0 then - 1 else pB_start)) \<le> 0 + 20"
    by (rule slice_loop_iterations)
  then have it: "slice_iterations pA_start pA_end Ai pB_start pB_end Bi vlen 50000 \<le> 20"
    by (simp add: slice_iterations_def)
  show ?thesis
    using bal it unfolding v by simp
qed

text \<open>
  An input of the claim: \<open>A\<close> holds the rows 0, 10, 20, ... and \<open>B\<close> the rows 5, 15, 25,
  ..., \<open>10^5\<close> of them each, in a vector of length \<open>10^6\<close>; there is no mask.
\<close>

theorem GB_slice_vector_balance_witness:
  "(case GB_slice_vector 0 0 (\<lambda>p. 0) 0 100000 (\<lambda>p. 10 * p) 0 100000 (\<lambda>p. 10 * p + 5)
           1000000 50000 of
      (i, pM, pA, pB) \<Rightarrow>
        49995 \<le> (100000 - pA) + (100000 - pB) \<and> (100000 - pA) + (100000 - pB) \<le> 50005)
   \<and> slice_iterations 0 100000 (\<lambda>p. 10 * p) 0 100000 (\<lambda>p. 10 * p + 5) 1000000 50000 \<le> 20"
proof -
  have A: "legal_vector 0 100000 (\<lambda>p. 10 * p) 1000000"
    by (simp add: legal_vector_def)
  have B: "legal_vector 0 100000 (\<lambda>p. 10 * p + 5) 1000000"
    by (simp add: legal_vector_def)
  show ?thesis
    using GB_slice_vector_balance [of 1000000 100000 0 100000 0 "\<lambda>p. 10 * p" "\<lambda>p. 10 * p + 5"
        0 0 "\<lambda>p. 0"] A B
    by simp
qed

end
